theory Spec2Isabelle
  imports Complex_Main "HOL-Library.AList"
begin

section \<open>JavaScript values used by the scanners\<close>

text \<open>
  Strings are lists of 8-bit code units (a message or an address is read as Latin-1,
  one \<^typ>\<open>char\<close> per character). \<^verbatim>\<open>number\<close> values that only ever hold integers are
  \<^typ>\<open>int\<close>, the others \<^typ>\<open>rat\<close>, with the rounding of double precision written out
  at each operation; \<^verbatim>\<open>bigint\<close> is \<^typ>\<open>int\<close>. A rejected promise
  or a thrown \<^verbatim>\<open>Error\<close> is \<open>Inl\<close> of its message.
\<close>

definition code :: "char \<Rightarrow> nat" where
  "code c = of_char c"

definition isDigit :: "char \<Rightarrow> bool" where
  "isDigit c = (48 \<le> code c \<and> code c \<le> 57)"

text \<open>The class \<^verbatim>\<open>\s\<close> (white space and line terminators) below code 256.\<close>

definition isSpace :: "char \<Rightarrow> bool" where
  "isSpace c = (code c \<in> {9, 10, 11, 12, 13, 32, 160})"

definition lowerChar :: "char \<Rightarrow> char" where
  "lowerChar c =
     (if (65 \<le> code c \<and> code c \<le> 90) \<or> (192 \<le> code c \<and> code c \<le> 222 \<and> code c \<noteq> 215)
      then char_of (code c + 32) else c)"

definition toLowerCase :: "string \<Rightarrow> string" where
  "toLowerCase s = map lowerChar s"

text \<open>\<^verbatim>\<open>s.includes(sub)\<close>: \<open>sub\<close> occurs in \<open>s\<close> as a contiguous run.\<close>

fun str_includes :: "string \<Rightarrow> string \<Rightarrow> bool" where
  "str_includes [] sub = (sub = [])"
| "str_includes (c # cs) sub = (take (length sub) (c # cs) = sub \<or> str_includes cs sub)"

text \<open>\<^verbatim>\<open>parseInt(ds, 10)\<close> on a run of decimal digits.\<close>

definition parseInt :: "string \<Rightarrow> nat" where
  "parseInt ds = foldl (\<lambda>acc c. acc * 10 + (code c - 48)) 0 ds"

text \<open>
  \<^verbatim>\<open>BigInt(str)\<close> on a string: white space is trimmed, the empty string is 0, then
  a hexadecimal, octal or binary literal (prefix, at least one digit, no sign) or a
  decimal literal with an optional sign. Anything else throws a SyntaxError, here
  \<open>None\<close>.
\<close>

definition digitValue :: "char \<Rightarrow> nat option" where
  "digitValue c =
     (if 48 \<le> code c \<and> code c \<le> 57 then Some (code c - 48)
      else if 97 \<le> code c \<and> code c \<le> 102 then Some (code c - 87)
      else if 65 \<le> code c \<and> code c \<le> 70 then Some (code c - 55)
      else None)"

fun parseDigits :: "nat \<Rightarrow> string \<Rightarrow> nat \<Rightarrow> nat option" where
  "parseDigits b [] acc = Some acc"
| "parseDigits b (c # cs) acc =
     (case digitValue c of
        None \<Rightarrow> None
      | Some d \<Rightarrow> if d < b then parseDigits b cs (acc * b + d) else None)"

definition parseLiteral :: "nat \<Rightarrow> string \<Rightarrow> int option" where
  "parseLiteral b ds = (if ds = [] then None else map_option int (parseDigits b ds 0))"

definition trim :: "string \<Rightarrow> string" where
  "trim s = rev (dropWhile isSpace (rev (dropWhile isSpace s)))"

definition BigInt :: "string \<Rightarrow> int option" where
  "BigInt str =
     (let s = trim str in
      if s = [] then Some 0
      else if take 2 s = ''0x'' \<or> take 2 s = ''0X'' then parseLiteral 16 (drop 2 s)
      else if take 2 s = ''0o'' \<or> take 2 s = ''0O'' then parseLiteral 8 (drop 2 s)
      else if take 2 s = ''0b'' \<or> take 2 s = ''0B'' then parseLiteral 2 (drop 2 s)
      else if take 1 s = ''+'' then parseLiteral 10 (drop 1 s)
      else if take 1 s = ''-'' then map_option uminus (parseLiteral 10 (drop 1 s))
      else parseLiteral 10 s)"

text \<open>\<^verbatim>\<open>n.toString()\<close> of a bigint: decimal digits, a minus sign when negative.\<close>

fun natToString :: "nat \<Rightarrow> string" where
  "natToString n =
     (if n < 10 then [''0123456789'' ! n]
      else natToString (n div 10) @ [''0123456789'' ! (n mod 10)])"

definition bigintToString :: "int \<Rightarrow> string" where
  "bigintToString i = (if i < 0 then CHR ''-'' # natToString (nat (- i)) else natToString (nat i))"

subsection \<open>Numbers\<close>

text \<open>
  A JavaScript number is an IEEE 754 binary64 value. A finite one is modelled by the
  rational it denotes, and an arithmetic operation by the exact result rounded to the
  nearest double, ties to the even significand.

  \<open>floorLog2 x\<close> is the binary exponent of a positive \<open>x\<close>: the \<open>e\<close> with
  \<open>2\<^sup>e \<le> x < 2\<^sup>e\<^sup>+\<^sup>1\<close>.
\<close>

function floorLog2 :: "rat \<Rightarrow> int" where
  "floorLog2 x =
     (if x \<le> 0 then 0
      else if 2 \<le> x then floorLog2 (x / 2) + 1
      else if x < 1 then floorLog2 (x * 2) - 1
      else 0)"
  by pat_completeness auto

lemma half_ceiling:
  fixes y :: rat
  assumes "1 < y"
  shows "\<lceil>y / 2\<rceil> \<le> \<lceil>y\<rceil> - 1"
proof -
  have "y \<le> of_int \<lceil>y\<rceil>"
    by simp
  moreover have "1 < \<lceil>y\<rceil>"
    using assms by (simp add: less_ceiling_iff)
  then have "2 \<le> \<lceil>y\<rceil>"
    by simp
  then have "(of_int 2 :: rat) \<le> of_int \<lceil>y\<rceil>"
    by (simp only: of_int_le_iff)
  then have "(2::rat) \<le> of_int \<lceil>y\<rceil>"
    by simp
  ultimately have "y / 2 \<le> of_int \<lceil>y\<rceil> - 1"
    by linarith
  then have "y / 2 \<le> of_int (\<lceil>y\<rceil> - 1)"
    by simp
  then show ?thesis
    by (simp only: ceiling_le_iff)
qed

lemma floorLog2_measure:
  fixes x :: rat
  assumes "0 < x"
  shows "2 \<le> x \<Longrightarrow> 2 * \<lceil>1 / (x / 2)\<rceil> + \<lceil>x / 2\<rceil> < 2 * \<lceil>1 / x\<rceil> + \<lceil>x\<rceil>"
    and "x < 1 \<Longrightarrow> 2 * \<lceil>1 / (x * 2)\<rceil> + \<lceil>x * 2\<rceil> < 2 * \<lceil>1 / x\<rceil> + \<lceil>x\<rceil>"
    and "0 < 2 * \<lceil>1 / x\<rceil> + \<lceil>x\<rceil>"
proof -
  have "0 < \<lceil>x\<rceil>" "0 < \<lceil>1 / x\<rceil>"
    using assms by simp_all
  then show "0 < 2 * \<lceil>1 / x\<rceil> + \<lceil>x\<rceil>"
    by linarith
next
  assume big: "2 \<le> x"
  then have "1 / (x / 2) \<le> 1" "0 < 1 / (x / 2)" "1 / x \<le> 1" "0 < 1 / x"
    by (simp_all add: field_simps)
  then have one: "\<lceil>1 / (x / 2)\<rceil> = 1" "\<lceil>1 / x\<rceil> = 1"
    by (simp_all add: ceiling_eq_iff)
  from big have "\<lceil>x / 2\<rceil> \<le> \<lceil>x\<rceil> - 1"
    by (intro half_ceiling) simp
  with one show "2 * \<lceil>1 / (x / 2)\<rceil> + \<lceil>x / 2\<rceil> < 2 * \<lceil>1 / x\<rceil> + \<lceil>x\<rceil>"
    by simp
next
  assume small: "x < 1"
  have y: "1 < 1 / x"
    using assms small by simp
  have "x * 2 \<le> 2"
    using small by simp
  then have a: "\<lceil>x * 2\<rceil> \<le> 2"
    by (simp add: ceiling_le_iff)
  have b: "\<lceil>x\<rceil> = 1"
    using assms small by (simp add: ceiling_eq_iff)
  have "1 / (x * 2) = 1 / x / 2"
    by simp
  then have c: "\<lceil>1 / (x * 2)\<rceil> \<le> \<lceil>1 / x\<rceil> - 1"
    using half_ceiling [OF y] by (simp only:)
  from a b c show "2 * \<lceil>1 / (x * 2)\<rceil> + \<lceil>x * 2\<rceil> < 2 * \<lceil>1 / x\<rceil> + \<lceil>x\<rceil>"
    by linarith
qed

termination floorLog2
proof (relation "measure (\<lambda>x. nat (2 * \<lceil>1 / x\<rceil> + \<lceil>x\<rceil>))")
  show "wf (measure (\<lambda>x::rat. nat (2 * \<lceil>1 / x\<rceil> + \<lceil>x\<rceil>)))"
    by simp
next
  fix x :: rat
  assume "\<not> x \<le> 0" "2 \<le> x"
  then show "(x / 2, x) \<in> measure (\<lambda>x. nat (2 * \<lceil>1 / x\<rceil> + \<lceil>x\<rceil>))"
    using floorLog2_measure(1) [of x] floorLog2_measure(3) [of x] by simp
next
  fix x :: rat
  assume "\<not> x \<le> 0" "\<not> 2 \<le> x" "x < 1"
  then show "(x * 2, x) \<in> measure (\<lambda>x. nat (2 * \<lceil>1 / x\<rceil> + \<lceil>x\<rceil>))"
    using floorLog2_measure(2) [of x] floorLog2_measure(3) [of x] by simp
qed

declare floorLog2.simps [simp del]

text \<open>The nearest integer, a tie going to the even one.\<close>

definition roundHalfEven :: "rat \<Rightarrow> int" where
  "roundHalfEven y =
     (let f = \<lfloor>y\<rfloor>; d = y - of_int f
      in if d < 1 / 2 then f
         else if 1 / 2 < d then f + 1
         else if even f then f else f + 1)"

definition pow2 :: "int \<Rightarrow> rat" where
  "pow2 e = (if 0 \<le> e then 2 ^ nat e else 1 / 2 ^ nat (- e))"

text \<open>
  The exponent of a double is at least \<open>-1022\<close> (below it the subnormal numbers share
  that exponent), and its significand has 53 bits: the doubles around \<open>x\<close> are the
  multiples of \<open>ulp x\<close>.
\<close>

definition exponentOf :: "rat \<Rightarrow> int" where
  "exponentOf x = max (floorLog2 \<bar>x\<bar>) (- 1022)"

definition ulp :: "rat \<Rightarrow> rat" where
  "ulp x = pow2 (exponentOf x - 52)"

text \<open>
  The double nearest to \<open>x\<close>. A result of magnitude \<open>2\<^sup>1\<^sup>0\<^sup>2\<^sup>4\<close> or more is
  \<^verbatim>\<open>Infinity\<close> in JavaScript; the operations of this program on block numbers
  (integers below \<open>2\<^sup>5\<^sup>3\<close>) and on basis points stay far below.
\<close>

definition roundToDouble :: "rat \<Rightarrow> rat" where
  "roundToDouble x = of_int (roundHalfEven (x / ulp x)) * ulp x"

text \<open>
  \<^verbatim>\<open>Number(n)\<close> of a bigint, and \<^verbatim>\<open>x / y\<close>, \<^verbatim>\<open>x * y\<close> and \<^verbatim>\<open>x + y\<close> of numbers.
\<close>

definition Number :: "int \<Rightarrow> rat" where
  "Number n = roundToDouble (of_int n)"

definition double_divide :: "rat \<Rightarrow> rat \<Rightarrow> rat" where
  "double_divide x y = roundToDouble (x / y)"

definition double_times :: "rat \<Rightarrow> rat \<Rightarrow> rat" where
  "double_times x y = roundToDouble (x * y)"

definition double_plus :: "rat \<Rightarrow> rat \<Rightarrow> rat" where
  "double_plus x y = roundToDouble (x + y)"

text \<open>
  \<^verbatim>\<open>Math.round\<close>: the nearest integer, halves towards plus infinity. It is exact on
  the double it is given.
\<close>

definition Math_round :: "rat \<Rightarrow> int" where
  "Math_round x = \<lfloor>x + 1 / 2\<rfloor>"

section \<open>rpcFailover.ts: the provider pool\<close>

record RPCProvider =
  url :: string
  name :: string
  priority :: int
  isHealthy :: bool
  lastCheck :: int
  failureCount :: int
  avgResponseTime :: rat

record ChainRPCConfig =
  chainId :: string
  providers :: "RPCProvider list"

text \<open>
  The module state: the table \<^verbatim>\<open>RPC_CONFIGS\<close> (keyed by chain id), the recovery
  callbacks registered with \<^verbatim>\<open>setTimeout\<close> and not yet run (the time each is due, and
  the provider object it captured, named by its chain key and its position in that
  chain's provider array), and the clock \<^verbatim>\<open>Date.now()\<close> in milliseconds.
\<close>

record PoolState =
  RPC_CONFIGS :: "(string \<times> ChainRPCConfig) list"
  timers :: "(int \<times> string \<times> nat) list"
  now :: int

definition HEALTH_CHECK_INTERVAL :: int where
  "HEALTH_CHECK_INTERVAL = 60000"

definition MAX_FAILURES_BEFORE_UNHEALTHY :: int where
  "MAX_FAILURES_BEFORE_UNHEALTHY = 3"

definition UNHEALTHY_COOLDOWN :: int where
  "UNHEALTHY_COOLDOWN = 300000"

text \<open>The environment variables the table reads; an unset variable is \<open>None\<close>.\<close>

record Env =
  ALCHEMY_API_KEY :: "string option"
  ETH_RPC_ALCHEMY :: "string option"
  ETH_RPC_ANKR :: "string option"
  BSC_RPC_ANKR :: "string option"
  BASE_RPC_ANKR :: "string option"

definition mkProvider :: "string \<Rightarrow> string \<Rightarrow> int \<Rightarrow> RPCProvider" where
  "mkProvider u n p =
     \<lparr>url = u, name = n, priority = p, isHealthy = True, lastCheck = 0, failureCount = 0,
      avgResponseTime = 0\<rparr>"

text \<open>\<^verbatim>\<open>process.env.ALCHEMY_API_KEY ? prefix + key : ''\<close>\<close>

definition alchemyUrl :: "Env \<Rightarrow> string \<Rightarrow> string" where
  "alchemyUrl env prefix =
     (case ALCHEMY_API_KEY env of
        None \<Rightarrow> ''''
      | Some k \<Rightarrow> if k = [] then '''' else prefix @ k)"

text \<open>\<^verbatim>\<open>process.env.X || ''\<close>\<close>

definition envOr :: "string option \<Rightarrow> string" where
  "envOr v = (case v of None \<Rightarrow> '''' | Some u \<Rightarrow> u)"

definition INITIAL_RPC_CONFIGS :: "Env \<Rightarrow> (string \<times> ChainRPCConfig) list" where
  "INITIAL_RPC_CONFIGS env =
     [(''ethereum'', \<lparr>chainId = ''ethereum'', providers =
         [mkProvider (alchemyUrl env ''https://eth-mainnet.g.alchemy.com/v2/'') ''Alchemy'' 1,
          mkProvider (envOr (ETH_RPC_ALCHEMY env)) ''Alchemy Legacy'' 2,
          mkProvider (envOr (ETH_RPC_ANKR env)) ''Ankr'' 3,
          mkProvider ''https://eth.llamarpc.com'' ''LlamaRPC'' 4,
          mkProvider ''https://rpc.ankr.com/eth'' ''Ankr Public'' 5]\<rparr>),
      (''bsc'', \<lparr>chainId = ''bsc'', providers =
         [mkProvider (envOr (BSC_RPC_ANKR env)) ''Ankr BSC'' 1,
          mkProvider ''https://bsc-dataseed1.binance.org'' ''Binance'' 2,
          mkProvider ''https://bsc-dataseed2.binance.org'' ''Binance 2'' 3,
          mkProvider ''https://rpc.ankr.com/bsc'' ''Ankr Public'' 4]\<rparr>),
      (''base'', \<lparr>chainId = ''base'', providers =
         [mkProvider (alchemyUrl env ''https://base-mainnet.g.alchemy.com/v2/'') ''Alchemy Base'' 1,
          mkProvider (envOr (BASE_RPC_ANKR env)) ''Ankr Base'' 2,
          mkProvider ''https://mainnet.base.org'' ''Base Official'' 3,
          mkProvider ''https://base.llamarpc.com'' ''LlamaRPC'' 4]\<rparr>),
      (''polygon'', \<lparr>chainId = ''polygon'', providers =
         [mkProvider (alchemyUrl env ''https://polygon-mainnet.g.alchemy.com/v2/'') ''Alchemy Polygon'' 1,
          mkProvider ''https://polygon-rpc.com'' ''Polygon Official'' 2,
          mkProvider ''https://rpc.ankr.com/polygon'' ''Ankr'' 3,
          mkProvider ''https://polygon.llamarpc.com'' ''LlamaRPC'' 4]\<rparr>),
      (''optimism'', \<lparr>chainId = ''optimism'', providers =
         [mkProvider (alchemyUrl env ''https://opt-mainnet.g.alchemy.com/v2/'') ''Alchemy Optimism'' 1,
          mkProvider ''https://mainnet.optimism.io'' ''Optimism Official'' 2,
          mkProvider ''https://rpc.ankr.com/optimism'' ''Ankr'' 3]\<rparr>),
      (''arbitrum'', \<lparr>chainId = ''arbitrum'', providers =
         [mkProvider (alchemyUrl env ''https://arb-mainnet.g.alchemy.com/v2/'') ''Alchemy Arbitrum'' 1,
          mkProvider ''https://arb1.arbitrum.io/rpc'' ''Arbitrum Official'' 2,
          mkProvider ''https://rpc.ankr.com/arbitrum'' ''Ankr'' 3]\<rparr>),
      (''avalanche'', \<lparr>chainId = ''avalanche'', providers =
         [mkProvider ''https://api.avax.network/ext/bc/C/rpc'' ''Avalanche Official'' 1,
          mkProvider ''https://rpc.ankr.com/avalanche'' ''Ankr'' 2]\<rparr>),
      (''solana'', \<lparr>chainId = ''solana'', providers =
         [mkProvider (alchemyUrl env ''https://solana-mainnet.g.alchemy.com/v2/'') ''Alchemy Solana'' 1,
          mkProvider ''https://api.mainnet-beta.solana.com'' ''Solana Official'' 2,
          mkProvider ''https://solana-api.projectserum.com'' ''Project Serum'' 3]\<rparr>)]"

definition initialPool :: "Env \<Rightarrow> PoolState" where
  "initialPool env = \<lparr>RPC_CONFIGS = INITIAL_RPC_CONFIGS env, timers = [], now = 0\<rparr>"

text \<open>\<^verbatim>\<open>RPC_CONFIGS[chainId.toLowerCase()]\<close>\<close>

definition lookupConfig :: "PoolState \<Rightarrow> string \<Rightarrow> ChainRPCConfig option" where
  "lookupConfig s chain = map_of (RPC_CONFIGS s) (toLowerCase chain)"

text \<open>
  The provider objects are mutated in place; in the model the chain's provider array is
  written back into the table, under the key it was read from.
\<close>

definition setProviders :: "string \<Rightarrow> RPCProvider list \<Rightarrow> PoolState \<Rightarrow> PoolState" where
  "setProviders key ps s =
     s\<lparr>RPC_CONFIGS :=
          map (\<lambda>(k, c). if k = key then (k, c\<lparr>providers := ps\<rparr>) else (k, c))
              (RPC_CONFIGS s)\<rparr>"

definition getBestProvider :: "string \<Rightarrow> PoolState \<Rightarrow> (string + string) \<times> PoolState" where
  "getBestProvider chain s =
     (case lookupConfig s chain of
        None \<Rightarrow> (Inl (''No RPC configuration found for chain: '' @ chain), s)
      | Some config \<Rightarrow>
          let availableProviders = filter (\<lambda>p. url p \<noteq> []) (providers config) in
          (case availableProviders of
             [] \<Rightarrow> (Inl (''No RPC providers configured for chain: '' @ chain), s)
           | first # _ \<Rightarrow>
               let healthyProviders = filter isHealthy availableProviders in
               (case sort_key priority healthyProviders of
                  [] \<Rightarrow>
                    (Inr (url first),
                     setProviders (toLowerCase chain)
                       (map (\<lambda>p. if url p \<noteq> [] then p\<lparr>isHealthy := True, failureCount := 0\<rparr>
                                 else p)
                            (providers config)) s)
                | best # _ \<Rightarrow> (Inr (url best), s))))"

text \<open>\<^verbatim>\<open>array.findIndex\<close>: the position of the first element that satisfies the test.\<close>

primrec findIndex :: "('a \<Rightarrow> bool) \<Rightarrow> 'a list \<Rightarrow> nat option" where
  "findIndex P [] = None"
| "findIndex P (x # xs) =
     (if P x then Some 0 else map_option Suc (findIndex P xs))"

definition reportProviderFailure :: "string \<Rightarrow> string \<Rightarrow> PoolState \<Rightarrow> PoolState" where
  "reportProviderFailure chain providerUrl s =
     (case lookupConfig s chain of
        None \<Rightarrow> s
      | Some config \<Rightarrow>
          (case findIndex (\<lambda>p. url p = providerUrl) (providers config) of
             None \<Rightarrow> s
           | Some i \<Rightarrow>
               let provider = providers config ! i;
                   provider1 = provider\<lparr>failureCount := failureCount provider + 1,
                                        lastCheck := now s\<rparr>
               in if failureCount provider1 \<ge> MAX_FAILURES_BEFORE_UNHEALTHY
                  then (setProviders (toLowerCase chain)
                          ((providers config)[i := provider1\<lparr>isHealthy := False\<rparr>]) s)
                       \<lparr>timers := timers s @ [(now s + UNHEALTHY_COOLDOWN, toLowerCase chain, i)]\<rparr>
                  else setProviders (toLowerCase chain) ((providers config)[i := provider1]) s))"

definition reportProviderSuccess :: "string \<Rightarrow> string \<Rightarrow> int \<Rightarrow> PoolState \<Rightarrow> PoolState" where
  "reportProviderSuccess chain providerUrl responseTime s =
     (case lookupConfig s chain of
        None \<Rightarrow> s
      | Some config \<Rightarrow>
          (case findIndex (\<lambda>p. url p = providerUrl) (providers config) of
             None \<Rightarrow> s
           | Some i \<Rightarrow>
               let provider = providers config ! i;
                   provider1 = provider\<lparr>
                     failureCount := max 0 (failureCount provider - 1),
                     avgResponseTime :=
                       (if avgResponseTime provider = 0 then of_int responseTime
                        else double_plus
                               (double_times (avgResponseTime provider) (roundToDouble (7 / 10)))
                               (double_times (of_int responseTime) (roundToDouble (3 / 10)))),
                     lastCheck := now s\<rparr>
               in setProviders (toLowerCase chain) ((providers config)[i := provider1]) s))"

text \<open>
  The callback of the recovery timer: the captured provider is healthy again, with no
  failures counted.
\<close>

definition recoverProvider :: "string \<Rightarrow> nat \<Rightarrow> PoolState \<Rightarrow> PoolState" where
  "recoverProvider key i s =
     (case map_of (RPC_CONFIGS s) key of
        None \<Rightarrow> s
      | Some config \<Rightarrow>
          if i < length (providers config)
          then setProviders key
                 ((providers config)[i := (providers config ! i)\<lparr>isHealthy := True,
                                                                 failureCount := 0\<rparr>]) s
          else s)"

text \<open>
  Time passing (an \<^verbatim>\<open>await\<close> that takes \<open>d\<close> milliseconds): the clock moves on and
  every callback that has become due runs, in the order it was registered.
\<close>

definition advance :: "int \<Rightarrow> PoolState \<Rightarrow> PoolState" where
  "advance d s =
     (let t = now s + max 0 d;
          due = filter (\<lambda>(dueTime, k, i). dueTime \<le> t) (timers s);
          pending = filter (\<lambda>(dueTime, k, i). \<not> dueTime \<le> t) (timers s)
      in foldl (\<lambda>s' (dueTime, k, i). recoverProvider k i s')
               (s\<lparr>now := t, timers := pending\<rparr>) due)"

section \<open>rpcFailover.ts: executeWithFailover\<close>

text \<open>
  The operation is given the URL of the provider it is connected to. It runs while the
  caller awaits it, so it takes and returns the module state: time passes, timers run,
  and other callers of the module may report in the meantime. It resolves (\<open>Inr\<close>) or
  rejects with a message (\<open>Inl\<close>).

  The result of \<^verbatim>\<open>executeWithFailover\<close> is what it returns or throws, together with
  the list of the back-off delays it slept, in order.
\<close>

type_synonym 'a operation = "string \<Rightarrow> PoolState \<Rightarrow> (string + 'a) \<times> PoolState"

definition DEFAULT_MAX_RETRIES :: int where
  "DEFAULT_MAX_RETRIES = 3"

definition backoff :: "int \<Rightarrow> int" where
  "backoff attemptCount = min (1000 * 2 ^ nat attemptCount) 5000"

definition exhaustedMessage :: "string \<Rightarrow> string option \<Rightarrow> string" where
  "exhaustedMessage chain lastError =
     ''RPC failover exhausted for '' @ chain @ '': '' @
     (case lastError of
        None \<Rightarrow> ''Unknown error''
      | Some m \<Rightarrow> if m = [] then ''Unknown error'' else m)"

function executeLoop ::
  "string \<Rightarrow> 'a operation \<Rightarrow> int \<Rightarrow> int \<Rightarrow> string option \<Rightarrow> int list \<Rightarrow> PoolState
   \<Rightarrow> ((string + 'a) \<times> int list) \<times> PoolState" where
  "executeLoop chain operation maxRetries attemptCount lastError waits s =
     (if attemptCount < maxRetries then
        (case (case getBestProvider chain s of
                 (Inl e, s1) \<Rightarrow> (Inl e, s1)
               | (Inr providerUrl, s1) \<Rightarrow>
                   (case operation providerUrl s1 of
                      (Inl e, s2) \<Rightarrow> (Inl e, s2)
                    | (Inr result, s2) \<Rightarrow>
                        (Inr result,
                         reportProviderSuccess chain providerUrl (now s2 - now s1) s2))) of
           (Inr result, s3) \<Rightarrow> ((Inr result, waits), s3)
         | (Inl error, s3) \<Rightarrow>
             (case getBestProvider chain s3 of
                (Inl e, s4) \<Rightarrow> ((Inl e, waits), s4)
              | (Inr providerUrl, s4) \<Rightarrow>
                  let s5 = reportProviderFailure chain providerUrl s4 in
                  if attemptCount + 1 < maxRetries
                  then executeLoop chain operation maxRetries (attemptCount + 1) (Some error)
                         (waits @ [backoff (attemptCount + 1)])
                         (advance (backoff (attemptCount + 1)) s5)
                  else executeLoop chain operation maxRetries (attemptCount + 1) (Some error)
                         waits s5))
      else ((Inl (exhaustedMessage chain lastError), waits), s))"
  by pat_completeness auto
termination
  by (relation "measure (\<lambda>(chain, operation, maxRetries, attemptCount, lastError, waits, s).
                            nat (maxRetries - attemptCount))") auto

declare executeLoop.simps [simp del]

definition executeWithFailover ::
  "string \<Rightarrow> 'a operation \<Rightarrow> int \<Rightarrow> PoolState \<Rightarrow> ((string + 'a) \<times> int list) \<times> PoolState" where
  "executeWithFailover chain operation maxRetries s =
     (case lookupConfig s chain of
        None \<Rightarrow> ((Inl (''No RPC configuration found for chain: '' @ chain), []), s)
      | Some config \<Rightarrow> executeLoop chain operation maxRetries 0 None [] s)"

text \<open>The environment with none of the variables set, for the examples.\<close>

definition noEnv :: Env where
  "noEnv = \<lparr>ALCHEMY_API_KEY = None, ETH_RPC_ALCHEMY = None, ETH_RPC_ANKR = None,
            BSC_RPC_ANKR = None, BASE_RPC_ANKR = None\<rparr>"

text \<open>
  The provider object at position \<open>i\<close> of the chain stored under \<open>key\<close>, if there is
  one.
\<close>

definition providerAt :: "PoolState \<Rightarrow> string \<Rightarrow> nat \<Rightarrow> RPCProvider option" where
  "providerAt s key i =
     (case map_of (RPC_CONFIGS s) key of
        None \<Rightarrow> None
      | Some config \<Rightarrow> if i < length (providers config) then Some (providers config ! i) else None)"

text \<open>
  The pool of the examples: the process has just started with no environment variable
  set, and the first provider of the Avalanche chain has been reported failed three
  times.
\<close>

definition avaxOfficial :: string where
  "avaxOfficial = ''https://api.avax.network/ext/bc/C/rpc''"

definition avaxAnkr :: string where
  "avaxAnkr = ''https://rpc.ankr.com/avalanche''"

definition afterThreeFailures :: PoolState where
  "afterThreeFailures =
     reportProviderFailure ''avalanche'' avaxOfficial
       (reportProviderFailure ''avalanche'' avaxOfficial
          (reportProviderFailure ''avalanche'' avaxOfficial (initialPool noEnv)))"

text \<open>
  A pool-wide outage and a relapse. Right after the first Avalanche provider, the
  second is reported failed three times as well (\<open>bothUnhealthy\<close>); the next selection
  finds no healthy provider and resets both (\<open>resetByExhaustion\<close>); 200000 ms later
  the first provider is again reported failed three times (\<open>failedAgain\<close>).
\<close>

definition bothUnhealthy :: PoolState where
  "bothUnhealthy =
     reportProviderFailure ''avalanche'' avaxAnkr
       (reportProviderFailure ''avalanche'' avaxAnkr
          (reportProviderFailure ''avalanche'' avaxAnkr afterThreeFailures))"

definition resetByExhaustion :: PoolState where
  "resetByExhaustion = snd (getBestProvider ''avalanche'' bothUnhealthy)"

definition failedAgain :: PoolState where
  "failedAgain =
     reportProviderFailure ''avalanche'' avaxOfficial
       (reportProviderFailure ''avalanche'' avaxOfficial
          (reportProviderFailure ''avalanche'' avaxOfficial (advance 200000 resetByExhaustion)))"

text \<open>
  An operation for the examples: the request takes 200 ms and then times out, whichever
  provider it was sent to; the message names the provider.
\<close>

definition timesOut :: "unit operation" where
  "timesOut providerUrl s = (Inl (''request to '' @ providerUrl @ '' timed out''), advance 200 s)"

section \<open>Event logs and the log provider\<close>

record Log =
  address :: string
  topics :: "string list"
  data :: string
  blockNumber :: int
  transactionHash :: string

text \<open>
  \<^verbatim>\<open>provider.getLogs\<close> resolves with logs or rejects with a message. The provider is
  outside the program: its answer may depend on the requested range \<open>fromBlock\<close>,
  \<open>toBlock\<close> and on how many requests it has been sent before (the first argument).
\<close>

type_synonym LogProvider = "nat \<Rightarrow> int \<Rightarrow> int \<Rightarrow> string + Log list"

section \<open>dappActivityScanner.ts\<close>

text \<open>
  \<^verbatim>\<open>errorMessage.match(/(\d+)\s+block\s+range/i)\<close> tried at the head of the string: the
  captured digits when the pattern matches there. The digits and the white space are
  taken greedily; a shorter run cannot match, since the next character is then still a
  digit or still white space.
\<close>

definition matchBlockRangeAt :: "string \<Rightarrow> string option" where
  "matchBlockRangeAt s =
     (let ds = takeWhile isDigit s;
          r1 = dropWhile isDigit s;
          r2 = dropWhile isSpace r1;
          r3 = drop 5 r2;
          r4 = dropWhile isSpace r3
      in if ds \<noteq> [] \<and> length r2 < length r1 \<and> toLowerCase (take 5 r2) = ''block''
            \<and> length r4 < length r3 \<and> toLowerCase (take 5 r4) = ''range''
         then Some ds else None)"

text \<open>The leftmost match decides; \<^verbatim>\<open>null\<close> is \<open>None\<close>.\<close>

fun extractMaxBlockRange :: "string \<Rightarrow> nat option" where
  "extractMaxBlockRange [] = None"
| "extractMaxBlockRange (c # cs) =
     (case matchBlockRangeAt (c # cs) of
        Some ds \<Rightarrow> Some (parseInt ds)
      | None \<Rightarrow> extractMaxBlockRange cs)"

text \<open>
  The local variables of the scan loop. \<open>requests\<close> counts the \<^verbatim>\<open>getLogs\<close> calls made
  so far; it is what the provider's answer may depend on.
\<close>

record ScanState =
  chunkSize :: int
  maxChunkSize :: int
  minChunkSize :: int
  allLogs :: "Log list"
  consecutiveErrors :: int
  rateLimited :: bool
  degradedMode :: bool
  currentBlock :: int
  requests :: nat

definition initialScanState :: "int \<Rightarrow> ScanState" where
  "initialScanState fromBlock =
     \<lparr>chunkSize = 50, maxChunkSize = 2000, minChunkSize = 10, allLogs = [],
      consecutiveErrors = 0, rateLimited = False, degradedMode = False,
      currentBlock = fromBlock, requests = 0\<rparr>"

definition chunkEnd :: "int \<Rightarrow> ScanState \<Rightarrow> int" where
  "chunkEnd latestBlock s = min (currentBlock s + chunkSize s - 1) latestBlock"

text \<open>The body of the \<^verbatim>\<open>try\<close> after \<^verbatim>\<open>getLogs\<close> has resolved with \<open>chunkLogs\<close>.\<close>

definition onChunkSuccess :: "int \<Rightarrow> Log list \<Rightarrow> ScanState \<Rightarrow> ScanState" where
  "onChunkSuccess latestBlock chunkLogs s =
     s\<lparr>allLogs := allLogs s @ chunkLogs,
       chunkSize := (if chunkSize s < maxChunkSize s \<and> consecutiveErrors s = 0
                     then min (chunkSize s * 2) (maxChunkSize s) else chunkSize s),
       consecutiveErrors := 0,
       currentBlock := chunkEnd latestBlock s + 1\<rparr>"

definition isRateLimitMessage :: "string \<Rightarrow> bool" where
  "isRateLimitMessage errorMsg =
     (str_includes errorMsg ''429'' \<or> str_includes errorMsg ''compute units''
      \<or> str_includes errorMsg ''rate limit'')"

text \<open>
  The \<^verbatim>\<open>catch\<close> block. The result says whether the loop goes on (\<open>True\<close>, by
  \<^verbatim>\<open>continue\<close> or by falling out of the block) or is left by \<^verbatim>\<open>break\<close> (\<open>False\<close>).
\<close>

definition onChunkError :: "string \<Rightarrow> ScanState \<Rightarrow> bool \<times> ScanState" where
  "onChunkError errorMsg s0 =
     (let s = s0\<lparr>consecutiveErrors := consecutiveErrors s0 + 1\<rparr>;
          maxRange = extractMaxBlockRange errorMsg
      in case (case maxRange of
                 None \<Rightarrow> None
               | Some m \<Rightarrow> if m \<noteq> 0 \<and> int m < chunkSize s then Some (int m) else None) of
           Some limit \<Rightarrow>
             (True, s\<lparr>chunkSize := limit, minChunkSize := limit, maxChunkSize := limit,
                       degradedMode := True\<rparr>)
         | None \<Rightarrow>
             if isRateLimitMessage errorMsg
             then (True, s\<lparr>chunkSize := max (minChunkSize s) (chunkSize s div 2),
                            rateLimited := True, degradedMode := True\<rparr>)
             else if consecutiveErrors s \<ge> 5
             then (False, s\<lparr>degradedMode := True\<rparr>)
             else (True, s\<lparr>chunkSize := max (minChunkSize s) (chunkSize s div 2)\<rparr>))"

text \<open>One pass through the body of the \<^verbatim>\<open>while\<close> loop.\<close>

definition scanIteration :: "LogProvider \<Rightarrow> int \<Rightarrow> ScanState \<Rightarrow> bool \<times> ScanState" where
  "scanIteration getLogs latestBlock s =
     (let s1 = s\<lparr>requests := Suc (requests s)\<rparr> in
      case getLogs (requests s) (currentBlock s) (chunkEnd latestBlock s) of
        Inr chunkLogs \<Rightarrow> (True, onChunkSuccess latestBlock chunkLogs s1)
      | Inl errorMsg \<Rightarrow> onChunkError errorMsg s1)"

text \<open>
  The \<^verbatim>\<open>while (currentBlock <= latestBlock)\<close> loop. A provider that keeps answering
  with rate-limit errors keeps the loop running for ever, so the loop is given a bound
  on the number of requests: \<open>None\<close> when the loop is still running after that many.
\<close>

fun scanLoop :: "nat \<Rightarrow> LogProvider \<Rightarrow> int \<Rightarrow> ScanState \<Rightarrow> ScanState option" where
  "scanLoop 0 getLogs latestBlock s =
     (if currentBlock s \<le> latestBlock then None else Some s)"
| "scanLoop (Suc n) getLogs latestBlock s =
     (if currentBlock s \<le> latestBlock
      then (case scanIteration getLogs latestBlock s of
              (True, s') \<Rightarrow> scanLoop n getLogs latestBlock s'
            | (False, s') \<Rightarrow> Some s')
      else Some s)"

definition targetBlocks :: "int \<Rightarrow> int \<Rightarrow> int" where
  "targetBlocks fromBlock latestBlock = latestBlock - fromBlock + 1"

definition actualBlocksScanned :: "int \<Rightarrow> int \<Rightarrow> ScanState \<Rightarrow> int" where
  "actualBlocksScanned fromBlock latestBlock s =
     max 0 (min (currentBlock s) (latestBlock + 1) - fromBlock)"

definition coveragePercent :: "int \<Rightarrow> int \<Rightarrow> ScanState \<Rightarrow> int" where
  "coveragePercent fromBlock latestBlock s =
     min 100 (if targetBlocks fromBlock latestBlock > 0
              then Math_round
                     (double_times
                        (double_divide (of_int (actualBlocksScanned fromBlock latestBlock s))
                                       (of_int (targetBlocks fromBlock latestBlock)))
                        100)
              else 0)"

text \<open>
  The part of \<^verbatim>\<open>DAppActivityResult\<close> that the scan loop decides. The ranking of the
  contracts called by the scanned transactions (\<^verbatim>\<open>activities\<close>, and the wording of
  \<^verbatim>\<open>message\<close>, which reads their number) is computed from further provider calls and
  does not write \<open>degradedMode\<close> or \<open>rateLimited\<close>.
\<close>

record DAppActivityResult =
  totalTxns :: nat
  scanBlocks :: int
  resultDegradedMode :: bool
  resultRateLimited :: bool

text \<open>
  Both places that clear the flags at full coverage, in the order of the source: after
  the loop (only when \<open>degradedMode\<close> is set) and before the result is built.
\<close>

definition finalizeFlags :: "int \<Rightarrow> int \<Rightarrow> ScanState \<Rightarrow> bool \<times> bool" where
  "finalizeFlags fromBlock latestBlock s =
     (let cov = coveragePercent fromBlock latestBlock s;
          (degraded1, limited1) =
             (if degradedMode s \<and> cov \<ge> 100 then (False, False)
              else (degradedMode s, rateLimited s))
      in if cov \<ge> 100 then (False, False) else (degraded1, limited1))"

definition scanDAppActivity ::
  "nat \<Rightarrow> LogProvider \<Rightarrow> int \<Rightarrow> int \<Rightarrow> (ScanState \<times> DAppActivityResult) option" where
  "scanDAppActivity bound getLogs latestBlock scanDepth =
     (let fromBlock = max 0 (latestBlock - scanDepth) in
      case scanLoop bound getLogs latestBlock (initialScanState fromBlock) of
        None \<Rightarrow> None
      | Some s \<Rightarrow>
          Some (s, \<lparr>totalTxns = length (allLogs s),
                    scanBlocks = latestBlock - fromBlock,
                    resultDegradedMode = fst (finalizeFlags fromBlock latestBlock s),
                    resultRateLimited = snd (finalizeFlags fromBlock latestBlock s)\<rparr>))"

text \<open>
  Providers for the examples. The first rejects every request for more than \<open>limit\<close>
  blocks with the given message and resolves the others with no logs. The second
  rejects its first \<open>k\<close> requests with the given message and then resolves every
  request with two logs that carry the first and the last block asked for.
\<close>

definition rangeLimited :: "int \<Rightarrow> string \<Rightarrow> LogProvider" where
  "rangeLimited limit message n fromBlock toBlock =
     (if toBlock - fromBlock + 1 > limit then Inl message else Inr [])"

definition rangeMarker :: "int \<Rightarrow> Log" where
  "rangeMarker b =
     \<lparr>address = ''0x6b175474e89094c44da98b954eedeac495271d0f'', topics = [], data = ''0x'',
      blockNumber = b, transactionHash = ''0x01''\<rparr>"

definition rejectFirst :: "nat \<Rightarrow> string \<Rightarrow> LogProvider" where
  "rejectFirst k message n fromBlock toBlock =
     (if n < k then Inl message else Inr [rangeMarker fromBlock, rangeMarker toBlock])"

definition blockRangeMessage :: string where
  "blockRangeMessage =
     ''Under the Free tier plan, you can make eth_getLogs requests with up to a 10 block range.''"

definition fiftyBlockMessage :: string where
  "fiftyBlockMessage = ''query exceeds 50 block range''"

definition rateLimitMessage :: string where
  "rateLimitMessage = ''429 Too Many Requests''"

text \<open>The chunk size is pinned to \<open>limit\<close>: it is also the floor and the cap.\<close>

definition pinned :: "int \<Rightarrow> ScanState \<Rightarrow> bool" where
  "pinned limit s = (chunkSize s = limit \<and> minChunkSize s = limit \<and> maxChunkSize s = limit)"

text \<open>The message reports no positive block range below \<open>limit\<close>.\<close>

definition noSmallerLimit :: "int \<Rightarrow> string \<Rightarrow> bool" where
  "noSmallerLimit limit message =
     (case extractMaxBlockRange message of None \<Rightarrow> True | Some m \<Rightarrow> m = 0 \<or> limit \<le> int m)"

section \<open>recentHolderScanner.ts: fetching the logs\<close>

record FetchState =
  fetchedLogs :: "Log list"
  failedChunks :: int
  successfulChunks :: int
  fetchRequests :: nat

definition isLogLimitError :: "string \<Rightarrow> bool" where
  "isLogLimitError message =
     (str_includes (toLowerCase message) ''log'' \<or> str_includes (toLowerCase message) ''limit''
      \<or> str_includes (toLowerCase message) ''too many'')"

lemma halved_chunk_smaller:
  fixes c :: rat
  assumes "500 < c"
  shows "\<lceil>c / 2\<rceil> < \<lceil>c\<rceil>"
proof -
  have "c / 2 \<le> c - 1"
    using assms by simp
  then have "\<lceil>c / 2\<rceil> \<le> \<lceil>c - 1\<rceil>"
    by (rule ceiling_mono)
  also have "\<lceil>c - 1\<rceil> = \<lceil>c\<rceil> - 1"
    by simp
  finally show ?thesis
    by simp
qed

text \<open>
  \<^verbatim>\<open>fetchChunkWithRetry(start, end, chunkSize)\<close>. The chunk size (here \<open>chunk\<close>) is only
  read in the test \<^verbatim>\<open>chunkSize > 500\<close> and halved for the two recursive calls.
\<close>

function fetchChunkWithRetry ::
  "LogProvider \<Rightarrow> int \<Rightarrow> int \<Rightarrow> rat \<Rightarrow> FetchState \<Rightarrow> FetchState" where
  "fetchChunkWithRetry getLogs start end chunk st =
     (case getLogs (fetchRequests st) start end of
        Inr chunkLogs \<Rightarrow>
          st\<lparr>fetchedLogs := fetchedLogs st @ chunkLogs,
             successfulChunks := successfulChunks st + 1,
             fetchRequests := Suc (fetchRequests st)\<rparr>
      | Inl message \<Rightarrow>
          let st1 = st\<lparr>fetchRequests := Suc (fetchRequests st)\<rparr> in
          if isLogLimitError message \<and> chunk > 500
          then let mid = (start + end) div 2 in
               fetchChunkWithRetry getLogs (mid + 1) end (chunk / 2)
                 (fetchChunkWithRetry getLogs start mid (chunk / 2) st1)
          else st1\<lparr>failedChunks := failedChunks st1 + 1\<rparr>)"
  by pat_completeness auto
termination
  by (relation "measure (\<lambda>(getLogs, start, end, chunk, st). nat \<lceil>chunk\<rceil>)")
     (auto simp add: halved_chunk_smaller)

declare fetchChunkWithRetry.simps [simp del]

definition INITIAL_CHUNK_SIZE :: int where
  "INITIAL_CHUNK_SIZE = 2000"

text \<open>\<^verbatim>\<open>for (let start = fromBlock; start <= latestBlock; start += INITIAL_CHUNK_SIZE)\<close>\<close>

function fetchAllChunks :: "LogProvider \<Rightarrow> int \<Rightarrow> int \<Rightarrow> FetchState \<Rightarrow> FetchState" where
  "fetchAllChunks getLogs latestBlock start st =
     (if start \<le> latestBlock
      then fetchAllChunks getLogs latestBlock (start + INITIAL_CHUNK_SIZE)
             (fetchChunkWithRetry getLogs start
                (min (start + INITIAL_CHUNK_SIZE - 1) latestBlock) (of_int INITIAL_CHUNK_SIZE) st)
      else st)"
  by pat_completeness auto
termination
  by (relation "measure (\<lambda>(getLogs, latestBlock, start, st). nat (latestBlock - start + 1))")
     (auto simp add: INITIAL_CHUNK_SIZE_def)

declare fetchAllChunks.simps [simp del]

section \<open>recentHolderScanner.ts: the balance ledger\<close>

text \<open>
  A \<^verbatim>\<open>Map<string, bigint>\<close> is a list of keys with their values in the order the keys
  were first set; \<^verbatim>\<open>map.set\<close> is \<^const>\<open>AList.update\<close>, which overwrites in place or
  appends.
\<close>

type_synonym Ledger = "(string \<times> int) list"

definition ZERO_ADDRESS :: string where
  "ZERO_ADDRESS = ''0x0000000000000000000000000000000000000000''"

text \<open>\<^verbatim>\<open>balances.get(key) || BigInt(0)\<close>\<close>

definition getBalance :: "Ledger \<Rightarrow> string \<Rightarrow> int" where
  "getBalance balances k = (case map_of balances k of None \<Rightarrow> 0 | Some b \<Rightarrow> b)"

text \<open>
  \<^verbatim>\<open>log.topics[i] ? '0x' + log.topics[i].slice(26) : null\<close>: a missing or empty topic
  gives \<^verbatim>\<open>null\<close>.
\<close>

definition topicAddress :: "Log \<Rightarrow> nat \<Rightarrow> string option" where
  "topicAddress entry i =
     (if i < length (topics entry) \<and> topics entry ! i \<noteq> []
      then Some (''0x'' @ drop 26 (topics entry ! i)) else None)"

text \<open>
  The body of the loop over the logs. \<^verbatim>\<open>BigInt(log.data)\<close> is evaluated before any
  balance is written, so a log whose data does not parse is skipped whole.
\<close>

definition applyTransferLog :: "Ledger \<Rightarrow> Log \<Rightarrow> Ledger" where
  "applyTransferLog balances entry =
     (case BigInt (data entry) of
        None \<Rightarrow> balances
      | Some v \<Rightarrow>
          let balances1 =
                (case topicAddress entry 1 of
                   None \<Rightarrow> balances
                 | Some from \<Rightarrow>
                     if from \<noteq> ZERO_ADDRESS
                     then AList.update (toLowerCase from)
                            (getBalance balances (toLowerCase from) - v) balances
                     else balances)
          in (case topicAddress entry 2 of
                None \<Rightarrow> balances1
              | Some to \<Rightarrow>
                  if to \<noteq> ZERO_ADDRESS
                  then AList.update (toLowerCase to)
                         (getBalance balances1 (toLowerCase to) + v) balances1
                  else balances1))"

definition buildLedger :: "Log list \<Rightarrow> Ledger" where
  "buildLedger logs = foldl applyTransferLog [] logs"

text \<open>\<^verbatim>\<open>if (balance > BigInt(0)) actualBalances.set(address, balance)\<close> over a list of results.\<close>

definition keepPositive :: "Ledger \<Rightarrow> (string \<times> int) list \<Rightarrow> Ledger" where
  "keepPositive actualBalances results =
     foldl (\<lambda>m (a, b). if b > 0 then AList.update a b m else m) actualBalances results"

definition BATCH_SIZE :: nat where
  "BATCH_SIZE = 50"

text \<open>
  One \<^verbatim>\<open>balanceOf\<close> promise of a batch: its own \<^verbatim>\<open>try/catch\<close> turns a rejected query
  into the balance 0.
\<close>

definition queryBalance :: "(string \<Rightarrow> string + int) \<Rightarrow> string \<Rightarrow> string \<times> int" where
  "queryBalance balanceOf addr =
     (case balanceOf addr of Inr b \<Rightarrow> (addr, b) | Inl e \<Rightarrow> (addr, 0))"

text \<open>\<^verbatim>\<open>for (let i = 0; i < addresses.length; i += BATCH_SIZE)\<close>\<close>

function verifyBalances ::
  "(string \<Rightarrow> string + int) \<Rightarrow> string list \<Rightarrow> nat \<Rightarrow> Ledger \<Rightarrow> Ledger" where
  "verifyBalances balanceOf addresses i actualBalances =
     (if i < length addresses
      then let batch = take BATCH_SIZE (drop i addresses);
               results = map (queryBalance balanceOf) batch
           in verifyBalances balanceOf addresses (i + BATCH_SIZE)
                (keepPositive actualBalances results)
      else actualBalances)"
  by pat_completeness auto
termination
  by (relation "measure (\<lambda>(balanceOf, addresses, i, actualBalances). length addresses - i)")
     (auto simp add: BATCH_SIZE_def)

declare verifyBalances.simps [simp del]

definition actualBalancesOf :: "bool \<Rightarrow> (string \<Rightarrow> string + int) \<Rightarrow> Ledger \<Rightarrow> Ledger" where
  "actualBalancesOf approximateMode balanceOf balances =
     (if approximateMode then keepPositive [] balances
      else verifyBalances balanceOf (map fst balances) 0 [])"

section \<open>recentHolderScanner.ts: ranking and percentages\<close>

text \<open>Division of bigints truncates towards zero.\<close>

definition bigintDiv :: "int \<Rightarrow> int \<Rightarrow> int" where
  "bigintDiv a b = sgn a * sgn b * (\<bar>a\<bar> div \<bar>b\<bar>)"

record SortedHolder =
  sh_address :: string
  sh_balance :: int
  sh_percentage :: rat

record HolderBalance =
  h_address :: string
  balance :: string
  percentage :: rat

text \<open>
  \<^verbatim>\<open>Number((balance * BigInt(10000)) / totalSupplyBigInt) / 100\<close>: the quotient of
  the bigints is exact; its conversion to a number and the division by 100 are in
  double precision.
\<close>

definition percentageOf :: "int \<Rightarrow> int \<Rightarrow> rat" where
  "percentageOf totalSupplyBigInt b =
     (if totalSupplyBigInt > 0
      then double_divide (Number (bigintDiv (b * 10000) totalSupplyBigInt)) 100
      else 0)"

text \<open>
  \<^verbatim>\<open>Array.prototype.sort\<close> is stable, and the comparator puts the larger balance first:
  a stable sort on the negated balance.
\<close>

definition sortedHolders :: "int \<Rightarrow> Ledger \<Rightarrow> SortedHolder list" where
  "sortedHolders totalSupplyBigInt actualBalances =
     sort_key (\<lambda>h. - sh_balance h)
       (map (\<lambda>(a, b). \<lparr>sh_address = a, sh_balance = b,
                        sh_percentage = percentageOf totalSupplyBigInt b\<rparr>) actualBalances)"

record BlockRange =
  range_from :: int
  range_to :: int
  scanned :: int

record HolderScanResult =
  holders :: "HolderBalance list"
  totalHolders :: nat
  blockRange :: BlockRange
  completeness :: string

text \<open>
  The operation \<^verbatim>\<open>scanRecentHolders\<close> hands to \<^verbatim>\<open>executeWithFailover\<close>, after
  \<^verbatim>\<open>getBlockNumber\<close> has resolved with \<open>latestBlock\<close>. \<^verbatim>\<open>BigInt(totalSupply)\<close> is the
  one statement after the scan that can throw.
\<close>

definition rankedHolders ::
  "LogProvider \<Rightarrow> (string \<Rightarrow> string + int) \<Rightarrow> int \<Rightarrow> int \<Rightarrow> int \<Rightarrow> bool \<Rightarrow> SortedHolder list" where
  "rankedHolders getLogs balanceOf latestBlock totalSupplyBigInt scanDepth approximateMode =
     (let fromBlock = max 0 (latestBlock - scanDepth);
          st = fetchAllChunks getLogs latestBlock fromBlock
                 \<lparr>fetchedLogs = [], failedChunks = 0, successfulChunks = 0, fetchRequests = 0\<rparr>
      in sortedHolders totalSupplyBigInt
           (actualBalancesOf approximateMode balanceOf (buildLedger (fetchedLogs st))))"

definition scanRecentHolders ::
  "LogProvider \<Rightarrow> (string \<Rightarrow> string + int) \<Rightarrow> int \<Rightarrow> string \<Rightarrow> int \<Rightarrow> bool
   \<Rightarrow> string + HolderScanResult" where
  "scanRecentHolders getLogs balanceOf latestBlock totalSupply scanDepth approximateMode =
     (let fromBlock = max 0 (latestBlock - scanDepth);
          st = fetchAllChunks getLogs latestBlock fromBlock
                 \<lparr>fetchedLogs = [], failedChunks = 0, successfulChunks = 0, fetchRequests = 0\<rparr>
      in case BigInt totalSupply of
           None \<Rightarrow> Inl (''Cannot convert '' @ totalSupply @ '' to a BigInt'')
         | Some totalSupplyBigInt \<Rightarrow>
             let sorted = rankedHolders getLogs balanceOf latestBlock totalSupplyBigInt scanDepth
                            approximateMode;
                 hs = map (\<lambda>h. \<lparr>h_address = sh_address h,
                                 balance = bigintToString (sh_balance h),
                                 percentage = sh_percentage h\<rparr>) sorted
             in Inr \<lparr>holders = hs, totalHolders = length hs,
                     blockRange = \<lparr>range_from = fromBlock, range_to = latestBlock,
                                   scanned = latestBlock - fromBlock\<rparr>,
                     completeness =
                       (if failedChunks st > successfulChunks st \<or> length hs = 0
                        then ''partial'' else ''recent'')\<rparr>)"

text \<open>The sum of the ledger over all its addresses.\<close>

definition ledgerSum :: "Ledger \<Rightarrow> int" where
  "ledgerSum balances = sum_list (map snd balances)"

text \<open>
  A Transfer log of the standard layout, for the examples: the event topic, the two
  indexed addresses padded to 32 bytes, and the value as data.
\<close>

definition ERC20_TRANSFER_TOPIC :: string where
  "ERC20_TRANSFER_TOPIC = ''0xddf252ad1be2c89b69c2b068fc378daa952ba7f163c4a11628f55a4df523b3ef''"

definition transferLog :: "string \<Rightarrow> string \<Rightarrow> string \<Rightarrow> Log" where
  "transferLog sender receiver v =
     \<lparr>address = ''0x6b175474e89094c44da98b954eedeac495271d0f'',
      topics = [ERC20_TRANSFER_TOPIC, ''0x000000000000000000000000'' @ sender,
                ''0x000000000000000000000000'' @ receiver],
      data = v, blockNumber = 1, transactionHash = ''0x01''\<rparr>"

definition addrA :: string where
  "addrA = ''aaaaaaaaaaaaaaaaaaaaaaaaaaaaaaaaaaaaaaaa''"

definition addrB :: string where
  "addrB = ''bbbbbbbbbbbbbbbbbbbbbbbbbbbbbbbbbbbbbbbb''"

definition addrC :: string where
  "addrC = ''cccccccccccccccccccccccccccccccccccccccc''"

definition addrD :: string where
  "addrD = ''dddddddddddddddddddddddddddddddddddddddd''"

definition addrZero :: string where
  "addrZero = ''0000000000000000000000000000000000000000''"

text \<open>
  A provider for the examples: the first request resolves with the given logs, every
  later one with none. And a token contract whose \<^verbatim>\<open>balanceOf\<close> always rejects.
\<close>

definition logsOnce :: "Log list \<Rightarrow> LogProvider" where
  "logsOnce logs n fromBlock toBlock = (if n = 0 then Inr logs else Inr [])"

definition balanceOfFails :: "string \<Rightarrow> string + int" where
  "balanceOfFails addr = Inl ''call revert exception''"

text \<open>A token contract whose \<^verbatim>\<open>balanceOf\<close> answers for one address only.\<close>

definition balanceOfOnly :: "string \<Rightarrow> int \<Rightarrow> string \<Rightarrow> string + int" where
  "balanceOfOnly holder b addr = (if addr = holder then Inr b else Inl ''missing response'')"

section \<open>enhancedRiskAnalysis.ts: trading tax detection\<close>

datatype TaxDetectionState = NoTax | TaxKnown | TaxZero | TaxUnknown

record TaxResult =
  buyTax :: rat
  sellTax :: rat
  hasTax :: bool
  state :: TaxDetectionState

text \<open>The variant table: the function name and \<^verbatim>\<open>isBuy\<close> (\<^verbatim>\<open>null\<close> for a total tax).\<close>

definition feeVariants :: "(string \<times> bool option) list" where
  "feeVariants =
     [(''buyFees'', Some True), (''buyFee'', Some True), (''_buyFee'', Some True),
      (''sellFees'', Some False), (''sellFee'', Some False), (''_sellFee'', Some False),
      (''_taxFee'', None), (''taxFee'', None), (''_totalTax'', None), (''totalFees'', None)]"

text \<open>
  The loop over the variants. \<open>call\<close> is the read of one fee function through the
  connected provider: it resolves with the value or rejects, whatever the reason (the
  function is absent, it reverts, the request fails). Every rejection is caught and the
  loop goes on; it stops early once both raw fees are known.
\<close>

fun queryVariants ::
  "(string \<Rightarrow> string + int) \<Rightarrow> (string \<times> bool option) list
   \<Rightarrow> int option \<times> int option \<times> bool \<Rightarrow> int option \<times> int option \<times> bool" where
  "queryVariants call [] acc = acc"
| "queryVariants call ((variantName, isBuy) # rest) (buyFeeRaw, sellFeeRaw, readSucceeded) =
     (case call variantName of
        Inl e \<Rightarrow> queryVariants call rest (buyFeeRaw, sellFeeRaw, readSucceeded)
      | Inr valueBigInt \<Rightarrow>
          let (buy1, sell1) =
                (if isBuy = Some True \<and> buyFeeRaw = None then (Some valueBigInt, sellFeeRaw)
                 else if isBuy = Some False \<and> sellFeeRaw = None
                 then (buyFeeRaw, Some valueBigInt)
                 else if isBuy = None \<and> buyFeeRaw = None \<and> sellFeeRaw = None
                 then (Some valueBigInt, Some valueBigInt)
                 else (buyFeeRaw, sellFeeRaw))
          in if buy1 \<noteq> None \<and> sell1 \<noteq> None then (buy1, sell1, True)
             else queryVariants call rest (buy1, sell1, True))"

definition normalizeFee :: "int option \<Rightarrow> rat" where
  "normalizeFee rawBigInt =
     (case rawBigInt of
        None \<Rightarrow> 0
      | Some num \<Rightarrow>
          if num = 0 then 0
          else if num \<ge> 1000000 then of_int num / 1000000
          else if num > 10000 then of_int num / 10000
          else if num > 1000 then of_int num / 100
          else if num > 100 then of_int num / 100
          else of_int num)"

text \<open>The operation handed to \<^verbatim>\<open>executeWithFailover\<close>; it has no statement that throws.\<close>

definition taxOperation :: "(string \<Rightarrow> string + int) \<Rightarrow> TaxResult" where
  "taxOperation call =
     (let (buyFeeRaw, sellFeeRaw, readSucceeded) = queryVariants call feeVariants (None, None, False);
          buy = normalizeFee buyFeeRaw;
          sell = normalizeFee sellFeeRaw
      in if \<not> readSucceeded then \<lparr>buyTax = 0, sellTax = 0, hasTax = False, state = NoTax\<rparr>
         else if buy = 0 \<and> sell = 0
         then \<lparr>buyTax = 0, sellTax = 0, hasTax = False, state = TaxZero\<rparr>
         else \<lparr>buyTax = buy, sellTax = sell, hasTax = True, state = TaxKnown\<rparr>)"

text \<open>
  \<^verbatim>\<open>detectTradingTax\<close>. \<open>contractCall providerUrl\<close> is the contract as read through the
  provider at that URL. Whatever \<^verbatim>\<open>executeWithFailover\<close> throws is caught and reported as
  \<open>TaxUnknown\<close>.
\<close>

definition detectTradingTax ::
  "string \<Rightarrow> (string \<Rightarrow> string \<Rightarrow> string + int) \<Rightarrow> PoolState \<Rightarrow> TaxResult \<times> PoolState" where
  "detectTradingTax chain contractCall s =
     (case executeWithFailover chain
             (\<lambda>providerUrl s'. (Inr (taxOperation (contractCall providerUrl)), s'))
             DEFAULT_MAX_RETRIES s of
        ((Inr result, waits), s1) \<Rightarrow> (result, s1)
      | ((Inl error, waits), s1) \<Rightarrow>
          (\<lparr>buyTax = 0, sellTax = 0, hasTax = False, state = TaxUnknown\<rparr>, s1))"

text \<open>
  Token contracts for the examples: one without any of the fee functions, and one whose
  only fee function is \<^verbatim>\<open>sellFee\<close>, returning the given value.
\<close>

definition noFeeFunctions :: "string \<Rightarrow> string \<Rightarrow> string + int" where
  "noFeeFunctions providerUrl variantName = Inl ''execution reverted''"

definition sellFeeOnly :: "int \<Rightarrow> string \<Rightarrow> string \<Rightarrow> string + int" where
  "sellFeeOnly fee providerUrl variantName =
     (if variantName = ''sellFee'' then Inr fee else Inl ''execution reverted'')"

section \<open>liveTransactionScanner.ts: transaction type classification\<close>

text \<open>
  A decoded log as the scanner keeps it: the event name and the decoded arguments
  (argument name and its printed value).
\<close>

record DecodedLog =
  eventName :: string
  args :: "(string \<times> string) list"

text \<open>
  \<^verbatim>\<open>determineTransactionType\<close>: the result is one of the string literals of
  \<^verbatim>\<open>DecodedTransaction['type']\<close>.
\<close>

definition determineTransactionType :: "DecodedLog list \<Rightarrow> string" where
  "determineTransactionType logs =
     (if length logs = 0 then ''other''
      else let eventNames = map eventName logs in
        if ''Swap'' \<in> set eventNames then ''swap''
        else if ''Mint'' \<in> set eventNames then ''mint''
        else if ''Burn'' \<in> set eventNames then ''burn''
        else if ''Approval'' \<in> set eventNames then ''approve''
        else if ''Transfer'' \<in> set eventNames then ''transfer''
        else ''other'')"

text \<open>
  The precedence table in the words of the specification: the event names in their
  fixed order, each with the type it decides. The first entry whose event occurs among
  the logs of the transaction wins; no entry gives \<^verbatim>\<open>other\<close>.
\<close>

definition type_precedence :: "(string \<times> string) list" where
  "type_precedence =
     [(''Swap'', ''swap''), (''Mint'', ''mint''), (''Burn'', ''burn''),
      (''Approval'', ''approve''), (''Transfer'', ''transfer'')]"

definition classify_by_precedence :: "DecodedLog list \<Rightarrow> string" where
  "classify_by_precedence logs =
     (case find (\<lambda>(ev, ty). ev \<in> eventName ` set logs) type_precedence of
        None \<Rightarrow> ''other''
      | Some (ev, ty) \<Rightarrow> ty)"

section \<open>Double precision: results\<close>

lemma pow2_powi: "pow2 e = 2 powi e"
  by (simp add: pow2_def power_int_def inverse_eq_divide power_one_over)

lemma power_int_two_succ: "(2::rat) powi (e + 1) = 2 powi e * 2"
  by (simp add: power_int_add)

lemma power_int_two_pred: "(2::rat) powi (e - 1) = 2 powi e / 2"
  by (simp add: power_int_diff)

lemma floorLog2_bounds:
  "0 < x \<Longrightarrow> 2 powi floorLog2 x \<le> x \<and> x < 2 powi (floorLog2 x + 1)"
proof (induction x rule: floorLog2.induct)
  case (1 x)
  show ?case
  proof (cases "2 \<le> x")
    case True
    define e where "e = floorLog2 (x / 2)"
    from 1 True have ih: "2 powi e \<le> x / 2" "x / 2 < 2 powi (e + 1)"
      by (simp_all add: e_def)
    have eq: "floorLog2 x = e + 1"
      unfolding e_def using True by (subst floorLog2.simps) simp
    from ih have "2 powi e * 2 \<le> x" "x < 2 powi (e + 1) * 2"
      by linarith+
    then have "2 powi (e + 1) \<le> x" "x < 2 powi (e + 1 + 1)"
      by (simp_all only: power_int_two_succ)
    then show ?thesis
      by (simp only: eq)
  next
    case False
    show ?thesis
    proof (cases "x < 1")
      case True
      define e where "e = floorLog2 (x * 2)"
      from 1 False True have ih: "2 powi e \<le> x * 2" "x * 2 < 2 powi (e + 1)"
        by (simp_all add: e_def)
      have eq: "floorLog2 x = e - 1"
        unfolding e_def using True 1(3) by (subst floorLog2.simps) simp
      have cancel: "e - 1 + 1 = e"
        by simp
      from ih(2) have "x * 2 < 2 powi e * 2"
        by (simp only: power_int_two_succ)
      with ih(1) have "2 powi e / 2 \<le> x" "x < 2 powi e"
        by linarith+
      then have "2 powi (e - 1) \<le> x" "x < 2 powi (e - 1 + 1)"
        by (simp_all only: power_int_two_pred cancel)
      then show ?thesis
        by (simp only: eq)
    next
      case notsmall: False
      have "floorLog2 x = 0"
        using False notsmall 1(3) by (subst floorLog2.simps) simp
      with False notsmall show ?thesis
        by simp
    qed
  qed
qed

lemma roundHalfEven_of_int [simp]: "roundHalfEven (of_int n) = n"
  by (simp add: roundHalfEven_def)

lemma roundHalfEven_mono: "x \<le> y \<Longrightarrow> roundHalfEven x \<le> roundHalfEven y"
proof -
  assume le: "x \<le> y"
  then have f: "\<lfloor>x\<rfloor> \<le> \<lfloor>y\<rfloor>"
    by (rule floor_mono)
  have up: "roundHalfEven x \<le> \<lfloor>x\<rfloor> + 1" and down: "\<lfloor>y\<rfloor> \<le> roundHalfEven y"
    by (simp_all add: roundHalfEven_def Let_def)
  show ?thesis
  proof (cases "\<lfloor>x\<rfloor> = \<lfloor>y\<rfloor>")
    case True
    from le have "x - of_int \<lfloor>y\<rfloor> \<le> y - of_int \<lfloor>y\<rfloor>"
      by simp
    then show ?thesis
      unfolding roundHalfEven_def Let_def True
      by (simp split: if_splits)
  next
    case False
    with f up down show ?thesis
      by linarith
  qed
qed

lemma roundHalfEven_cases:
  "(roundHalfEven y = \<lfloor>y\<rfloor> \<and> y - of_int \<lfloor>y\<rfloor> \<le> 1 / 2)
   \<or> (roundHalfEven y = \<lfloor>y\<rfloor> + 1 \<and> 1 / 2 \<le> y - of_int \<lfloor>y\<rfloor>)"
  by (simp add: roundHalfEven_def Let_def)

lemma roundHalfEven_upper: "of_int (roundHalfEven y) \<le> y + 1 / 2"
proof -
  have "of_int \<lfloor>y\<rfloor> \<le> y"
    by simp
  with roundHalfEven_cases [of y] show ?thesis
    by (elim disjE conjE) (simp_all, linarith+)
qed


lemma pow2_pos [simp]: "0 < pow2 e"
  by (simp add: pow2_def)

lemma pow2_add: "pow2 (a + b) = pow2 a * pow2 b"
  by (simp add: pow2_powi power_int_add)

lemma pow2_mono: "a \<le> b \<Longrightarrow> pow2 a \<le> pow2 b"
  by (simp add: pow2_powi power_int_increasing)

lemma pow2_less_cancel: "pow2 a < pow2 b \<Longrightarrow> a < b"
  using pow2_mono [of b a] by (cases "a < b") simp_all

lemma pow2_numeral: "pow2 53 = 9007199254740992" "pow2 52 = 4503599627370496" "pow2 0 = 1"
  by (simp_all add: pow2_def)

lemma floorLog2_pow2:
  assumes "0 < x"
  shows "pow2 (floorLog2 x) \<le> x" "x < pow2 (floorLog2 x + 1)"
  using floorLog2_bounds [OF assms] by (simp_all add: pow2_powi)

lemma floorLog2_mono:
  assumes "0 < x" "x \<le> y"
  shows "floorLog2 x \<le> floorLog2 y"
proof -
  have "pow2 (floorLog2 x) \<le> x"
    using assms(1) by (rule floorLog2_pow2)
  also have "x \<le> y"
    by (rule assms)
  also have "y < pow2 (floorLog2 y + 1)"
    using assms by (intro floorLog2_pow2) simp
  finally have "floorLog2 x < floorLog2 y + 1"
    by (rule pow2_less_cancel)
  then show ?thesis
    by simp
qed


lemma ulp_pos [simp]: "0 < ulp x"
  by (simp add: ulp_def)

lemma ulp_nonneg [simp]: "0 \<le> ulp x"
  by (simp add: ulp_def less_imp_le)

lemma ulp_neq_zero [simp]: "ulp x \<noteq> 0"
  by (simp add: ulp_def pow2_def)

lemma roundHalfEven_zero [simp]: "roundHalfEven 0 = 0"
  by (simp add: roundHalfEven_def)

lemma ulp_times_pow2_52: "ulp x * pow2 52 = pow2 (exponentOf x)"
  using pow2_add [of "exponentOf x - 52" 52] by (simp add: ulp_def)

lemma ulp_times_pow2_53: "ulp x * pow2 53 = pow2 (exponentOf x + 1)"
  using pow2_add [of "exponentOf x - 52" 53] by (simp add: ulp_def add.commute)

lemma roundToDouble_zero [simp]: "roundToDouble 0 = 0"
  by (simp add: roundToDouble_def)

text \<open>Integers below \<open>2\<^sup>5\<^sup>3\<close> are doubles.\<close>

lemma roundToDouble_of_int:
  assumes "0 \<le> n" "n < 9007199254740992"
  shows "roundToDouble (of_int n) = of_int n"
proof (cases "n = 0")
  case True
  then show ?thesis
    by simp
next
  case False
  define x :: rat where "x = of_int n"
  define e where "e = floorLog2 x"
  from False assms have x: "1 \<le> x" "x < pow2 53"
    by (simp_all add: x_def pow2_numeral)
  then have pos: "0 < x"
    by simp
  have "pow2 0 \<le> x"
    using x by (simp add: pow2_numeral)
  also have "x < pow2 (e + 1)"
    unfolding e_def using pos by (rule floorLog2_pow2)
  finally have low: "0 \<le> e"
    using pow2_less_cancel [of 0 "e + 1"] by simp
  have "pow2 e \<le> x"
    unfolding e_def using pos by (rule floorLog2_pow2)
  also note \<open>x < pow2 53\<close>
  finally have high: "e \<le> 52"
    using pow2_less_cancel [of e 53] by simp
  have ex: "exponentOf x = e"
    using pos low by (simp add: exponentOf_def e_def)
  define k where "k = nat (52 - e)"
  have "pow2 (e - 52) * pow2 (52 - e) = 1"
    using pow2_add [of "e - 52" "52 - e"] by (simp add: pow2_numeral)
  moreover have "pow2 (52 - e) = 2 ^ k"
    using high by (simp add: pow2_def k_def)
  ultimately have u: "ulp x * 2 ^ k = 1"
    by (simp add: ulp_def ex)
  have "x * 2 ^ k * ulp x = x * (ulp x * 2 ^ k)"
    by (simp add: ac_simps)
  then have "x * 2 ^ k * ulp x = x"
    by (simp only: u mult_1_right)
  then have "x / ulp x = x * 2 ^ k"
    by (simp add: divide_eq_eq)
  also have "\<dots> = of_int (n * 2 ^ k)"
    by (simp add: x_def)
  finally have "roundHalfEven (x / ulp x) = n * 2 ^ k"
    by (simp only: roundHalfEven_of_int)
  then have "roundToDouble x = x * (2 ^ k * ulp x)"
    by (simp add: roundToDouble_def x_def)
  also have "\<dots> = x"
    using u by (simp add: mult.commute)
  finally show ?thesis
    by (simp only: x_def)
qed

text \<open>Rounding a number of the normal range moves it by at most half a unit in the last place.\<close>

lemma roundToDouble_upper:
  assumes "pow2 (- 1022) \<le> x"
  shows "roundToDouble x \<le> x + x / 9007199254740992"
proof -
  have pos: "0 < x"
    using assms pow2_pos [of "- 1022"] by linarith
  define e where "e = floorLog2 x"
  have "x < pow2 (e + 1)"
    unfolding e_def using pos by (rule floorLog2_pow2)
  with assms have "pow2 (- 1022) < pow2 (e + 1)"
    by linarith
  then have "- 1022 < e + 1"
    by (rule pow2_less_cancel)
  then have ex: "exponentOf x = e"
    using pos by (simp add: exponentOf_def e_def)
  have "pow2 e \<le> x"
    unfolding e_def using pos by (rule floorLog2_pow2)
  then have u: "ulp x * 4503599627370496 \<le> x"
    using ulp_times_pow2_52 [of x] by (simp add: ex pow2_numeral)
  have "of_int (roundHalfEven (x / ulp x)) \<le> x / ulp x + 1 / 2"
    by (rule roundHalfEven_upper)
  then have "of_int (roundHalfEven (x / ulp x)) * ulp x \<le> (x / ulp x + 1 / 2) * ulp x"
    by (rule mult_right_mono) simp
  also have "\<dots> = x + ulp x / 2"
    by (simp add: field_simps)
  finally have "roundToDouble x \<le> x + ulp x / 2"
    by (simp only: roundToDouble_def)
  with u show ?thesis
    by linarith
qed

lemma roundToDouble_nonneg: "0 \<le> x \<Longrightarrow> 0 \<le> roundToDouble x"
proof -
  assume "0 \<le> x"
  then have "of_int 0 \<le> x / ulp x"
    by simp
  then have "roundHalfEven (of_int 0) \<le> roundHalfEven (x / ulp x)"
    by (rule roundHalfEven_mono)
  then have "(0::rat) \<le> of_int (roundHalfEven (x / ulp x))"
    by simp
  then show ?thesis
    by (simp add: roundToDouble_def)
qed

lemma roundToDouble_mono:
  assumes "0 \<le> x" "x \<le> y"
  shows "roundToDouble x \<le> roundToDouble y"
proof (cases "x = 0")
  case True
  with assms roundToDouble_nonneg [of y] show ?thesis
    by simp
next
  case False
  with assms have pos: "0 < x" "0 < y"
    by simp_all
  have fl: "floorLog2 x \<le> floorLog2 y"
    using pos(1) assms(2) by (rule floorLog2_mono)
  then have ex: "exponentOf x \<le> exponentOf y"
    using pos by (simp add: exponentOf_def)
  show ?thesis
  proof (cases "exponentOf x = exponentOf y")
    case True
    then have u: "ulp x = ulp y"
      by (simp add: ulp_def)
    have "x / ulp y \<le> y / ulp y"
      using assms(2) by (simp add: divide_right_mono)
    then have "roundHalfEven (x / ulp y) \<le> roundHalfEven (y / ulp y)"
      by (rule roundHalfEven_mono)
    then have "(of_int (roundHalfEven (x / ulp y)) :: rat) \<le> of_int (roundHalfEven (y / ulp y))"
      by (simp only: of_int_le_iff)
    then show ?thesis
      unfolding roundToDouble_def u by (rule mult_right_mono) simp
  next
    case False
    with ex have less: "exponentOf x + 1 \<le> exponentOf y"
      by simp
    then have normal: "exponentOf y = floorLog2 y"
      using pos by (simp add: exponentOf_def)
    have "x < pow2 (floorLog2 x + 1)"
      using pos(1) by (rule floorLog2_pow2)
    also have "\<dots> \<le> pow2 (exponentOf x + 1)"
      using pos by (intro pow2_mono) (simp add: exponentOf_def)
    finally have "x < ulp x * pow2 53"
      by (simp only: ulp_times_pow2_53)
    then have "x / ulp x \<le> of_int 9007199254740992"
      by (simp add: field_simps pow2_numeral)
    then have "roundHalfEven (x / ulp x) \<le> roundHalfEven (of_int 9007199254740992)"
      by (rule roundHalfEven_mono)
    then have "(of_int (roundHalfEven (x / ulp x)) :: rat) \<le> of_int 9007199254740992"
      by (simp only: roundHalfEven_of_int of_int_le_iff)
    then have "roundToDouble x \<le> of_int 9007199254740992 * ulp x"
      unfolding roundToDouble_def by (rule mult_right_mono) simp
    also have "\<dots> = pow2 (exponentOf x + 1)"
      using ulp_times_pow2_53 [of x] by (simp add: pow2_numeral mult.commute)
    also have "\<dots> \<le> pow2 (exponentOf y)"
      using less by (rule pow2_mono)
    finally have upper: "roundToDouble x \<le> pow2 (exponentOf y)" .
    have "pow2 (exponentOf y) \<le> y"
      unfolding normal using pos(2) by (rule floorLog2_pow2)
    then have "ulp y * pow2 52 \<le> y"
      by (simp only: ulp_times_pow2_52)
    then have "of_int 4503599627370496 \<le> y / ulp y"
      by (simp add: field_simps pow2_numeral)
    then have "roundHalfEven (of_int 4503599627370496) \<le> roundHalfEven (y / ulp y)"
      by (rule roundHalfEven_mono)
    then have "(of_int 4503599627370496 :: rat) \<le> of_int (roundHalfEven (y / ulp y))"
      by (simp only: roundHalfEven_of_int of_int_le_iff)
    then have "of_int 4503599627370496 * ulp y \<le> roundToDouble y"
      unfolding roundToDouble_def by (rule mult_right_mono) simp
    moreover have "of_int 4503599627370496 * ulp y = pow2 (exponentOf y)"
      using ulp_times_pow2_52 [of y] by (simp add: pow2_numeral mult.commute)
    ultimately have "pow2 (exponentOf y) \<le> roundToDouble y"
      by simp
    with upper show ?thesis
      by simp
  qed
qed

text \<open>Some quotients and products, evaluated.\<close>

lemma double_percent_examples:
  "Math_round (double_times (double_divide 29 200) 100) = 14"
  "Math_round (double_times (double_divide 1450 10000) 100) = 14"
  "Math_round (29 / 200 * 100) = 15"
  by code_simp+

lemma double_values:
  "double_times (double_divide 29 200) 100 = 8162774324609023 / 562949953421312"
  "double_divide (Number 9999) 100 = 7036170730324623 / 70368744177664"
  "double_divide (Number 1) 100 = 5764607523034235 / 576460752303423488"
  "double_divide (Number 10000) 100 = 100"
  "double_divide (Number 2) 100 = 5764607523034235 / 288230376151711744"
  "double_divide (Number 9998) 100 = 7035467042882847 / 70368744177664"
  by code_simp+

section \<open>The provider pool: results\<close>

lemma map_of_map_entry:
  "map_of (map (\<lambda>(k, c). if k = key then (k, f c) else (k, c)) al) k'
   = (if k' = key then map_option f (map_of al k') else map_of al k')"
  by (induction al) auto

lemma map_of_setProviders:
  "map_of (RPC_CONFIGS (setProviders key ps s)) k
   = (if k = key
      then map_option (\<lambda>c. c\<lparr>providers := ps\<rparr>) (map_of (RPC_CONFIGS s) k)
      else map_of (RPC_CONFIGS s) k)"
  by (simp add: setProviders_def map_of_map_entry)

lemma setProviders_fields [simp]:
  "timers (setProviders key ps s) = timers s" "now (setProviders key ps s) = now s"
  by (simp_all add: setProviders_def)

lemma providerAt_setProviders:
  "providerAt (setProviders key' ps s) key j
   = (if key = key'
      then (case map_of (RPC_CONFIGS s) key of
              None \<Rightarrow> None
            | Some c \<Rightarrow> if j < length ps then Some (ps ! j) else None)
      else providerAt s key j)"
  by (simp add: providerAt_def map_of_setProviders split: option.splits)

lemma findIndex_Some:
  "findIndex P xs = Some i \<Longrightarrow> i < length xs \<and> P (xs ! i) \<and> (\<forall>j < i. \<not> P (xs ! j))"
proof (induction xs arbitrary: i)
  case Nil
  then show ?case by simp
next
  case (Cons x xs)
  show ?case
  proof (cases "P x")
    case True
    with Cons.prems show ?thesis
      by simp
  next
    case False
    with Cons.prems obtain i' where i': "findIndex P xs = Some i'" "i = Suc i'"
      by auto
    from Cons.IH [OF i'(1)] False i'(2) show ?thesis
      by (auto simp add: less_Suc_eq_0_disj)
  qed
qed

lemma findIndex_cong_map:
  "map f xs = map f ys \<Longrightarrow> findIndex (\<lambda>p. f p = u) xs = findIndex (\<lambda>p. f p = u) ys"
proof (induction xs arbitrary: ys)
  case Nil
  then show ?case by simp
next
  case (Cons x xs)
  then obtain y ys' where "ys = y # ys'" "f x = f y" "map f xs = map f ys'"
    by (cases ys) auto
  with Cons.IH show ?case
    by simp
qed

lemma map_url_update:
  "i < length ps \<Longrightarrow> url p' = url (ps ! i) \<Longrightarrow> map url (ps[i := p']) = map url ps"
  by (simp add: map_update list_update_same_conv)

text \<open>What one failure report does to the provider it names.\<close>

lemma reportProviderFailure_step:
  assumes cfg: "lookupConfig s chain = Some config"
    and idx: "findIndex (\<lambda>p. url p = providerUrl) (providers config) = Some i"
  obtains ps' where
    "lookupConfig (reportProviderFailure chain providerUrl s) chain
       = Some (config\<lparr>providers := ps'\<rparr>)"
    "findIndex (\<lambda>p. url p = providerUrl) ps' = Some i"
    "length ps' = length (providers config)"
    "map url ps' = map url (providers config)"
    "failureCount (ps' ! i) = failureCount (providers config ! i) + 1"
    "isHealthy (ps' ! i)
       = (isHealthy (providers config ! i) \<and> failureCount (providers config ! i) + 1 < 3)"
    "now (reportProviderFailure chain providerUrl s) = now s"
    "timers (reportProviderFailure chain providerUrl s)
       = timers s @ (if 3 \<le> failureCount (providers config ! i) + 1
                     then [(now s + 300000, toLowerCase chain, i)] else [])"
    "\<forall>j. j \<noteq> i \<longrightarrow> ps' ! j = providers config ! j"
    "priority (ps' ! i) = priority (providers config ! i)"
proof -
  let ?ps = "providers config"
  let ?p1 = "(?ps ! i)\<lparr>failureCount := failureCount (?ps ! i) + 1, lastCheck := now s\<rparr>"
  let ?ps' = "?ps[i := (if 3 \<le> failureCount (?ps ! i) + 1 then ?p1\<lparr>isHealthy := False\<rparr>
                        else ?p1)]"
  from findIndex_Some [OF idx] have i: "i < length ?ps" "url (?ps ! i) = providerUrl"
    by simp_all
  have urls: "map url ?ps' = map url ?ps"
    using i by (intro map_url_update) simp_all
  have look: "lookupConfig (reportProviderFailure chain providerUrl s) chain
       = Some (config\<lparr>providers := ?ps'\<rparr>)"
    using cfg idx
    by (simp add: reportProviderFailure_def lookupConfig_def Let_def map_of_setProviders
          MAX_FAILURES_BEFORE_UNHEALTHY_def)
  have "findIndex (\<lambda>p. url p = providerUrl) ?ps' = Some i"
    using findIndex_cong_map [OF urls, of providerUrl] idx by simp
  moreover have "timers (reportProviderFailure chain providerUrl s)
       = timers s @ (if 3 \<le> failureCount (?ps ! i) + 1
                     then [(now s + 300000, toLowerCase chain, i)] else [])"
    using cfg idx
    by (simp add: reportProviderFailure_def Let_def MAX_FAILURES_BEFORE_UNHEALTHY_def
          UNHEALTHY_COOLDOWN_def)
  moreover have "now (reportProviderFailure chain providerUrl s) = now s"
    using cfg idx
    by (simp add: reportProviderFailure_def Let_def)
  ultimately show ?thesis
    using look urls i by (intro that [of ?ps']) auto
qed


lemma providerAt_lookupConfig:
  "lookupConfig s chain = Some config
   \<Longrightarrow> providerAt s (toLowerCase chain) i
       = (if i < length (providers config) then Some (providers config ! i) else None)"
  by (simp add: providerAt_def lookupConfig_def)

lemma three_failures:
  assumes cfg: "lookupConfig s chain = Some config"
    and idx: "findIndex (\<lambda>p. url p = providerUrl) (providers config) = Some i"
    and count: "0 \<le> failureCount (providers config ! i)"
    and s3: "s3 = reportProviderFailure chain providerUrl
                    (reportProviderFailure chain providerUrl
                       (reportProviderFailure chain providerUrl s))"
  shows "\<exists>p. providerAt s3 (toLowerCase chain) i = Some p \<and> \<not> isHealthy p
             \<and> 3 \<le> failureCount p \<and> url p = providerUrl
             \<and> priority p = priority (providers config ! i)"
    and "(now s + 300000, toLowerCase chain, i) \<in> set (timers s3)"
    and "now s3 = now s"
    and "set (timers s3) \<subseteq> set (timers s) \<union> {(now s + 300000, toLowerCase chain, i)}"
proof -
  let ?s1 = "reportProviderFailure chain providerUrl s"
  let ?s2 = "reportProviderFailure chain providerUrl ?s1"
  from reportProviderFailure_step [OF cfg idx] obtain ps1 where
    1: "lookupConfig ?s1 chain = Some (config\<lparr>providers := ps1\<rparr>)"
       "findIndex (\<lambda>p. url p = providerUrl) ps1 = Some i"
       "failureCount (ps1 ! i) = failureCount (providers config ! i) + 1"
       "now ?s1 = now s"
       "timers ?s1 = timers s @ (if 3 \<le> failureCount (providers config ! i) + 1
                     then [(now s + 300000, toLowerCase chain, i)] else [])"
       "priority (ps1 ! i) = priority (providers config ! i)"
    by metis
  have idx1: "findIndex (\<lambda>p. url p = providerUrl) (providers (config\<lparr>providers := ps1\<rparr>)) = Some i"
    using 1(2) by simp
  from reportProviderFailure_step [OF 1(1) idx1] obtain ps2 where
    2: "lookupConfig ?s2 chain = Some (config\<lparr>providers := ps2\<rparr>)"
       "findIndex (\<lambda>p. url p = providerUrl) ps2 = Some i"
       "failureCount (ps2 ! i) = failureCount (ps1 ! i) + 1"
       "now ?s2 = now ?s1"
       "timers ?s2 = timers ?s1 @ (if 3 \<le> failureCount (ps1 ! i) + 1
                     then [(now ?s1 + 300000, toLowerCase chain, i)] else [])"
       "priority (ps2 ! i) = priority (ps1 ! i)"
    by (simp del: findIndex.simps) metis
  have idx2: "findIndex (\<lambda>p. url p = providerUrl) (providers (config\<lparr>providers := ps2\<rparr>)) = Some i"
    using 2(2) by simp
  from reportProviderFailure_step [OF 2(1) idx2] obtain ps3 where
    3: "lookupConfig s3 chain = Some (config\<lparr>providers := ps3\<rparr>)"
       "findIndex (\<lambda>p. url p = providerUrl) ps3 = Some i"
       "failureCount (ps3 ! i) = failureCount (ps2 ! i) + 1"
       "isHealthy (ps3 ! i) = (isHealthy (ps2 ! i) \<and> failureCount (ps2 ! i) + 1 < 3)"
       "now s3 = now ?s2"
       "timers s3 = timers ?s2 @ (if 3 \<le> failureCount (ps2 ! i) + 1
                     then [(now ?s2 + 300000, toLowerCase chain, i)] else [])"
       "priority (ps3 ! i) = priority (ps2 ! i)"
    unfolding s3 by (simp del: findIndex.simps) metis
  from findIndex_Some [OF 3(2)] have i: "i < length ps3" "url (ps3 ! i) = providerUrl"
    by simp_all
  have c3: "failureCount (ps3 ! i) = failureCount (providers config ! i) + 3"
    using 1(3) 2(3) 3(3) by simp
  have "providerAt s3 (toLowerCase chain) i = Some (ps3 ! i)"
    using providerAt_lookupConfig [OF 3(1), of i] i by simp
  moreover have "\<not> isHealthy (ps3 ! i)"
    using 3(4) 2(3) 1(3) count by simp
  ultimately show "\<exists>p. providerAt s3 (toLowerCase chain) i = Some p \<and> \<not> isHealthy p
             \<and> 3 \<le> failureCount p \<and> url p = providerUrl
             \<and> priority p = priority (providers config ! i)"
    using c3 count i 1(6) 2(6) 3(7) by simp
  show "now s3 = now s"
    using 1(4) 2(4) 3(5) by simp
  show "(now s + 300000, toLowerCase chain, i) \<in> set (timers s3)"
    using 3(6) 2(3,4) 1(3,4) count by simp
  show "set (timers s3) \<subseteq> set (timers s) \<union> {(now s + 300000, toLowerCase chain, i)}"
    using 3(6) 2(4,5) 1(4,5) by (auto split: if_splits)
qed

lemma sort_key_head:
  assumes "sort_key f xs = y # ys"
  shows "y \<in> set xs \<and> (\<forall>x \<in> set xs. f y \<le> f x)"
proof -
  have "set (y # ys) = set xs"
    using assms by (metis set_sort)
  moreover have "sorted (map f (y # ys))"
    using assms by (metis sorted_sort_key)
  ultimately show ?thesis
    by auto
qed

lemma getBestProvider_healthy:
  assumes cfg: "lookupConfig x chain = Some cx"
    and some: "\<exists>q \<in> set (providers cx). url q \<noteq> [] \<and> isHealthy q"
  obtains best where "getBestProvider chain x = (Inr (url best), x)"
    "best \<in> set (providers cx)" "url best \<noteq> []" "isHealthy best"
    "\<forall>q \<in> set (providers cx). url q \<noteq> [] \<and> isHealthy q \<longrightarrow> priority best \<le> priority q"
proof -
  let ?available = "filter (\<lambda>p. url p \<noteq> []) (providers cx)"
  let ?healthy = "filter isHealthy ?available"
  from some have ne: "?healthy \<noteq> []"
    by (auto simp add: filter_empty_conv)
  then have "sort_key priority ?healthy \<noteq> []"
    by (metis length_sort length_0_conv)
  then obtain best rest where sorted: "sort_key priority ?healthy = best # rest"
    by (cases "sort_key priority ?healthy") auto
  from ne obtain first others where av: "?available = first # others"
    by (cases ?available) auto
  have "getBestProvider chain x = (Inr (url best), x)"
    using cfg av sorted by (simp add: getBestProvider_def Let_def)
  moreover from sort_key_head [OF sorted]
  have "best \<in> set ?healthy" "\<forall>q \<in> set ?healthy. priority best \<le> priority q"
    by simp_all
  ultimately show ?thesis
    by (intro that [of best]) auto
qed

lemma getBestProvider_exhausted:
  assumes cfg: "lookupConfig x chain = Some cx"
    and av: "filter (\<lambda>p. url p \<noteq> []) (providers cx) = first # others"
    and none: "\<forall>q \<in> set (providers cx). url q \<noteq> [] \<longrightarrow> \<not> isHealthy q"
  shows "getBestProvider chain x
         = (Inr (url first),
            setProviders (toLowerCase chain)
              (map (\<lambda>p. if url p \<noteq> [] then p\<lparr>isHealthy := True, failureCount := 0\<rparr> else p)
                   (providers cx)) x)"
proof -
  have "filter isHealthy (filter (\<lambda>p. url p \<noteq> []) (providers cx)) = []"
    using none by (auto simp add: filter_empty_conv)
  then show ?thesis
    using cfg av by (simp add: getBestProvider_def Let_def)
qed

lemma providerAt_recoverProvider:
  "providerAt (recoverProvider k j s) key i
   = (if key = k \<and> i = j
      then map_option (\<lambda>p. p\<lparr>isHealthy := True, failureCount := 0\<rparr>) (providerAt s key i)
      else providerAt s key i)"
proof (cases "map_of (RPC_CONFIGS s) k")
  case None
  then show ?thesis
    by (auto simp add: recoverProvider_def providerAt_def)
next
  case (Some config)
  then show ?thesis
    by (auto simp add: recoverProvider_def providerAt_def map_of_setProviders)
qed

lemma providerAt_recover_all:
  "providerAt (foldl (\<lambda>s' (dueTime, k, j). recoverProvider k j s') s0 due) key i
   = (if \<exists>t. (t, key, i) \<in> set due
      then map_option (\<lambda>p. p\<lparr>isHealthy := True, failureCount := 0\<rparr>) (providerAt s0 key i)
      else providerAt s0 key i)"
proof (induction due arbitrary: s0)
  case Nil
  then show ?case by simp
next
  case (Cons timer due)
  obtain t k j where timer: "timer = (t, k, j)"
    by (cases timer)
  show ?case
    by (cases "providerAt s0 key i")
       (auto simp add: Cons.IH timer providerAt_recoverProvider)
qed

lemma providerAt_advance:
  "providerAt (advance d y) key i
   = (if \<exists>t. (t, key, i) \<in> set (timers y) \<and> t \<le> now y + max 0 d
      then map_option (\<lambda>p. p\<lparr>isHealthy := True, failureCount := 0\<rparr>) (providerAt y key i)
      else providerAt y key i)"
proof -
  have "providerAt (y\<lparr>now := t, timers := ts\<rparr>) key i = providerAt y key i" for t ts
    by (simp add: providerAt_def)
  then show ?thesis
    by (auto simp add: advance_def Let_def providerAt_recover_all)
qed

lemma providerAt_timers [simp]: "providerAt (s\<lparr>timers := ts\<rparr>) key j = providerAt s key j"
  by (simp add: providerAt_def)

lemma providerAt_update_entry:
  assumes "lookupConfig s chain = Some config"
  shows "providerAt (setProviders (toLowerCase chain) ((providers config)[i := q]) s) key j
         = (if key = toLowerCase chain \<and> j = i \<and> i < length (providers config) then Some q
            else providerAt s key j)"
  using assms
  by (auto simp add: providerAt_def map_of_setProviders lookupConfig_def split: option.splits)

lemma reportProviderFailure_never_heals:
  assumes "providerAt s key j = Some p" "\<not> isHealthy p"
  shows "\<exists>p'. providerAt (reportProviderFailure chain u s) key j = Some p' \<and> \<not> isHealthy p'"
proof (cases "lookupConfig s chain")
  case None
  with assms show ?thesis
    by (simp add: reportProviderFailure_def)
next
  case (Some config)
  show ?thesis
  proof (cases "findIndex (\<lambda>p. url p = u) (providers config)")
    case None
    with Some assms show ?thesis
      by (simp add: reportProviderFailure_def)
  next
    case (Some i)
    have same: "providers config ! i = p" if "key = toLowerCase chain" "j = i"
      using that assms(1) \<open>lookupConfig s chain = Some config\<close>
      by (simp add: providerAt_def lookupConfig_def split: if_splits)
    show ?thesis
      using Some \<open>lookupConfig s chain = Some config\<close> assms same
      by (auto simp add: reportProviderFailure_def Let_def providerAt_update_entry)
  qed
qed

lemma reportProviderSuccess_never_heals:
  assumes "providerAt s key j = Some p" "\<not> isHealthy p"
  shows "\<exists>p'. providerAt (reportProviderSuccess chain u rt s) key j = Some p' \<and> \<not> isHealthy p'"
proof (cases "lookupConfig s chain")
  case None
  with assms show ?thesis
    by (simp add: reportProviderSuccess_def)
next
  case (Some config)
  show ?thesis
  proof (cases "findIndex (\<lambda>p. url p = u) (providers config)")
    case None
    with Some assms show ?thesis
      by (simp add: reportProviderSuccess_def)
  next
    case (Some i)
    have same: "providers config ! i = p" if "key = toLowerCase chain" "j = i"
      using that assms(1) \<open>lookupConfig s chain = Some config\<close>
      by (simp add: providerAt_def lookupConfig_def split: if_splits)
    show ?thesis
      using Some \<open>lookupConfig s chain = Some config\<close> assms same
      by (auto simp add: reportProviderSuccess_def Let_def providerAt_update_entry)
  qed
qed

text \<open>
  What holds of the pool. Let a provider of a configured chain be reported failed three
  times in a row, its failure count not negative before. (1) It is then unhealthy. (2)
  In any state, a call of \<^verbatim>\<open>getBestProvider\<close> while some provider with a URL is healthy
  returns a healthy provider, of the best priority among the healthy ones, and leaves
  the pool as it is; with distinct URLs it is not the URL of any unhealthy provider.
  Reports of failure or success never make an unhealthy provider healthy. (3) Once the
  cool-down of 300000 ms has passed the provider is healthy again with a failure count
  of 0; until then it stays unhealthy, when no recovery timer for it was pending from
  before. (4) A healthy provider with a URL whose priority is better than that of every
  other healthy provider is the one returned. (5) When no provider with a URL is healthy,
  every provider with a URL is reset to healthy with a failure count of 0 and the first
  of them in the table is returned, which has the best priority when the table is in
  priority order.
\<close>

lemma circuit_breaker_without_pending_timer:
  assumes cfg: "lookupConfig s chain = Some config"
    and idx: "findIndex (\<lambda>p. url p = providerUrl) (providers config) = Some i"
    and count: "0 \<le> failureCount (providers config ! i)"
    and s3: "s3 = reportProviderFailure chain providerUrl
                    (reportProviderFailure chain providerUrl
                       (reportProviderFailure chain providerUrl s))"
  shows "(\<exists>p. providerAt s3 (toLowerCase chain) i = Some p \<and> \<not> isHealthy p
              \<and> url p = providerUrl)
    \<and> (\<forall>x cx p. lookupConfig x chain = Some cx \<and> p \<in> set (providers cx) \<and> \<not> isHealthy p
          \<and> (\<exists>q \<in> set (providers cx). url q \<noteq> [] \<and> isHealthy q)
          \<and> distinct (map url (filter (\<lambda>p. url p \<noteq> []) (providers cx)))
        \<longrightarrow> (\<exists>best. getBestProvider chain x = (Inr (url best), x)
               \<and> best \<in> set (providers cx) \<and> isHealthy best \<and> url best \<noteq> url p
               \<and> (\<forall>q \<in> set (providers cx). url q \<noteq> [] \<and> isHealthy q
                     \<longrightarrow> priority best \<le> priority q)))
    \<and> (\<forall>x key j p c u rt. providerAt x key j = Some p \<and> \<not> isHealthy p
        \<longrightarrow> (\<exists>p'. providerAt (reportProviderFailure c u x) key j = Some p' \<and> \<not> isHealthy p')
          \<and> (\<exists>p'. providerAt (reportProviderSuccess c u rt x) key j = Some p'
                  \<and> \<not> isHealthy p'))
    \<and> (\<forall>d \<ge> UNHEALTHY_COOLDOWN.
          \<exists>p. providerAt (advance d s3) (toLowerCase chain) i = Some p \<and> isHealthy p
              \<and> failureCount p = 0 \<and> url p = providerUrl)
    \<and> ((\<forall>(t, k, j) \<in> set (timers s). \<not> (k = toLowerCase chain \<and> j = i))
        \<longrightarrow> (\<forall>d < UNHEALTHY_COOLDOWN.
              \<exists>p. providerAt (advance d s3) (toLowerCase chain) i = Some p \<and> \<not> isHealthy p))
    \<and> (\<forall>x cx p. lookupConfig x chain = Some cx \<and> p \<in> set (providers cx) \<and> url p \<noteq> []
          \<and> isHealthy p
          \<and> (\<forall>q \<in> set (providers cx). url q \<noteq> [] \<and> isHealthy q \<and> q \<noteq> p
                \<longrightarrow> priority p < priority q)
        \<longrightarrow> getBestProvider chain x = (Inr (url p), x))
    \<and> (\<forall>x cx first others. lookupConfig x chain = Some cx
          \<and> filter (\<lambda>p. url p \<noteq> []) (providers cx) = first # others
          \<and> (\<forall>q \<in> set (providers cx). url q \<noteq> [] \<longrightarrow> \<not> isHealthy q)
        \<longrightarrow> (\<exists>x'. getBestProvider chain x = (Inr (url first), x')
               \<and> (\<forall>j < length (providers cx).
                     providerAt x' (toLowerCase chain) j
                       = Some (if url (providers cx ! j) \<noteq> []
                               then (providers cx ! j)\<lparr>isHealthy := True, failureCount := 0\<rparr>
                               else providers cx ! j))
               \<and> (sorted (map priority (providers cx))
                    \<longrightarrow> (\<forall>q \<in> set (providers cx). url q \<noteq> []
                           \<longrightarrow> priority first \<le> priority q))))"
proof -
  note three = three_failures [OF cfg idx count s3]
  from three(1) have flipped: "\<exists>p. providerAt s3 (toLowerCase chain) i = Some p
       \<and> \<not> isHealthy p \<and> url p = providerUrl"
    by blast
  have excluded: "\<exists>best. getBestProvider chain x = (Inr (url best), x)
               \<and> best \<in> set (providers cx) \<and> isHealthy best \<and> url best \<noteq> url p
               \<and> (\<forall>q \<in> set (providers cx). url q \<noteq> [] \<and> isHealthy q
                     \<longrightarrow> priority best \<le> priority q)"
    if h: "lookupConfig x chain = Some cx \<and> p \<in> set (providers cx) \<and> \<not> isHealthy p
          \<and> (\<exists>q \<in> set (providers cx). url q \<noteq> [] \<and> isHealthy q)
          \<and> distinct (map url (filter (\<lambda>p. url p \<noteq> []) (providers cx)))" for x cx p
  proof -
    from h obtain best where best: "getBestProvider chain x = (Inr (url best), x)"
      "best \<in> set (providers cx)" "url best \<noteq> []" "isHealthy best"
      "\<forall>q \<in> set (providers cx). url q \<noteq> [] \<and> isHealthy q \<longrightarrow> priority best \<le> priority q"
      using getBestProvider_healthy [of x chain cx] by blast
    have "url best \<noteq> url p"
    proof
      assume same: "url best = url p"
      let ?available = "filter (\<lambda>p. url p \<noteq> []) (providers cx)"
      have "best \<in> set ?available" "p \<in> set ?available"
        using best(2,3) h same by simp_all
      moreover have "inj_on url (set ?available)"
        using h by (simp add: distinct_map)
      ultimately have "best = p"
        using same by (rule inj_onD [rotated 2]) 
      with best(4) h show False
        by simp
    qed
    with best show ?thesis
      by blast
  qed
  have reports: "(\<exists>p'. providerAt (reportProviderFailure c u x) key j = Some p' \<and> \<not> isHealthy p')
          \<and> (\<exists>p'. providerAt (reportProviderSuccess c u rt x) key j = Some p'
                  \<and> \<not> isHealthy p')"
    if "providerAt x key j = Some p \<and> \<not> isHealthy p" for x key j p c u rt
    using that reportProviderFailure_never_heals [of x key j p c u]
      reportProviderSuccess_never_heals [of x key j p c u rt]
    by blast
  have recovered: "\<exists>p. providerAt (advance d s3) (toLowerCase chain) i = Some p \<and> isHealthy p
              \<and> failureCount p = 0 \<and> url p = providerUrl"
    if "UNHEALTHY_COOLDOWN \<le> d" for d
  proof -
    have "\<exists>t. (t, toLowerCase chain, i) \<in> set (timers s3) \<and> t \<le> now s3 + max 0 d"
      using three(2,3) that by (auto simp add: UNHEALTHY_COOLDOWN_def)
    with flipped show ?thesis
      by (auto simp add: providerAt_advance)
  qed
  have waiting: "\<exists>p. providerAt (advance d s3) (toLowerCase chain) i = Some p \<and> \<not> isHealthy p"
    if fresh: "\<forall>(t, k, j) \<in> set (timers s). \<not> (k = toLowerCase chain \<and> j = i)"
      and d: "d < UNHEALTHY_COOLDOWN" for d
  proof -
    have "\<not> (\<exists>t. (t, toLowerCase chain, i) \<in> set (timers s3) \<and> t \<le> now s3 + max 0 d)"
    proof
      assume "\<exists>t. (t, toLowerCase chain, i) \<in> set (timers s3) \<and> t \<le> now s3 + max 0 d"
      then obtain t where t: "(t, toLowerCase chain, i) \<in> set (timers s3)"
        "t \<le> now s3 + max 0 d"
        by blast
      from t(1) three(4) fresh have "t = now s + 300000"
        by auto
      with t(2) three(3) d show False
        by (simp add: UNHEALTHY_COOLDOWN_def)
    qed
    with flipped show ?thesis
      by (auto simp add: providerAt_advance)
  qed
  have eligible: "getBestProvider chain x = (Inr (url p), x)"
    if h: "lookupConfig x chain = Some cx \<and> p \<in> set (providers cx) \<and> url p \<noteq> []
          \<and> isHealthy p
          \<and> (\<forall>q \<in> set (providers cx). url q \<noteq> [] \<and> isHealthy q \<and> q \<noteq> p
                \<longrightarrow> priority p < priority q)" for x cx p
  proof -
    from h obtain best where best: "getBestProvider chain x = (Inr (url best), x)"
      "best \<in> set (providers cx)" "url best \<noteq> []" "isHealthy best"
      "\<forall>q \<in> set (providers cx). url q \<noteq> [] \<and> isHealthy q \<longrightarrow> priority best \<le> priority q"
      using getBestProvider_healthy [of x chain cx] by blast
    have "best = p"
    proof (rule ccontr)
      assume "best \<noteq> p"
      with h best(2,3,4) have "priority p < priority best"
        by blast
      moreover from h best(5) have "priority best \<le> priority p"
        by blast
      ultimately show False
        by simp
    qed
    with best(1) show ?thesis
      by simp
  qed
  have exhausted: "\<exists>x'. getBestProvider chain x = (Inr (url first), x')
               \<and> (\<forall>j < length (providers cx).
                     providerAt x' (toLowerCase chain) j
                       = Some (if url (providers cx ! j) \<noteq> []
                               then (providers cx ! j)\<lparr>isHealthy := True, failureCount := 0\<rparr>
                               else providers cx ! j))
               \<and> (sorted (map priority (providers cx))
                    \<longrightarrow> (\<forall>q \<in> set (providers cx). url q \<noteq> []
                           \<longrightarrow> priority first \<le> priority q))"
    if h: "lookupConfig x chain = Some cx
          \<and> filter (\<lambda>p. url p \<noteq> []) (providers cx) = first # others
          \<and> (\<forall>q \<in> set (providers cx). url q \<noteq> [] \<longrightarrow> \<not> isHealthy q)" for x cx first others
  proof -
    let ?reset = "\<lambda>p. if url p \<noteq> [] then p\<lparr>isHealthy := True, failureCount := 0\<rparr> else p"
    let ?x' = "setProviders (toLowerCase chain) (map ?reset (providers cx)) x"
    have ret: "getBestProvider chain x = (Inr (url first), ?x')"
      using h getBestProvider_exhausted [of x chain cx first others] by blast
    have "map_of (RPC_CONFIGS x) (toLowerCase chain) = Some cx"
      using h by (simp add: lookupConfig_def)
    then have state: "\<forall>j < length (providers cx).
                     providerAt ?x' (toLowerCase chain) j
                       = Some (if url (providers cx ! j) \<noteq> []
                               then (providers cx ! j)\<lparr>isHealthy := True, failureCount := 0\<rparr>
                               else providers cx ! j)"
      by (simp add: providerAt_setProviders)
    have best: "\<forall>q \<in> set (providers cx). url q \<noteq> [] \<longrightarrow> priority first \<le> priority q"
      if "sorted (map priority (providers cx))"
    proof -
      from that have "sorted (map priority (filter (\<lambda>p. url p \<noteq> []) (providers cx)))"
        by (rule sorted_filter)
      with h have "\<forall>q \<in> set (first # others). priority first \<le> priority q"
        by auto
      moreover have "q \<in> set (first # others)" if "q \<in> set (providers cx)" "url q \<noteq> []" for q
      proof -
        from that have "q \<in> set (filter (\<lambda>p. url p \<noteq> []) (providers cx))"
          by simp
        with h show ?thesis
          by simp
      qed
      ultimately show ?thesis
        by blast
    qed
    from ret state best show ?thesis
      by blast
  qed
  from flipped excluded reports recovered waiting eligible exhausted show ?thesis
    by (intro conjI allI impI) blast+
qed

lemmas pool_eval =
  lookupConfig_def initialPool_def INITIAL_RPC_CONFIGS_def toLowerCase_def lowerChar_def code_def
  envOr_def alchemyUrl_def noEnv_def mkProvider_def avaxOfficial_def avaxAnkr_def
  reportProviderFailure_def setProviders_def MAX_FAILURES_BEFORE_UNHEALTHY_def
  UNHEALTHY_COOLDOWN_def Let_def

lemma avalanche_initial:
  "lookupConfig (initialPool noEnv) ''avalanche''
   = Some \<lparr>chainId = ''avalanche'', providers =
       [mkProvider avaxOfficial ''Avalanche Official'' 1, mkProvider avaxAnkr ''Ankr'' 2]\<rparr>"
  by (simp add: pool_eval)

lemma avalanche_after_three:
  "lookupConfig afterThreeFailures ''avalanche''
   = Some \<lparr>chainId = ''avalanche'', providers =
       [\<lparr>url = avaxOfficial, name = ''Avalanche Official'', priority = 1, isHealthy = False,
         lastCheck = 0, failureCount = 3, avgResponseTime = 0\<rparr>,
        mkProvider avaxAnkr ''Ankr'' 2]\<rparr>"
  "timers afterThreeFailures = [(300000, ''avalanche'', 0)]"
  "now afterThreeFailures = 0"
  by (simp_all add: afterThreeFailures_def pool_eval)

lemma avalanche_recovered:
  "lookupConfig (advance 300000 afterThreeFailures) ''avalanche''
   = Some \<lparr>chainId = ''avalanche'', providers =
       [\<lparr>url = avaxOfficial, name = ''Avalanche Official'', priority = 1, isHealthy = True,
         lastCheck = 0, failureCount = 0, avgResponseTime = 0\<rparr>,
        mkProvider avaxAnkr ''Ankr'' 2]\<rparr>"
  by (simp add: afterThreeFailures_def advance_def recoverProvider_def pool_eval)

lemma circuit_breaker_example:
  "(\<exists>p. providerAt afterThreeFailures ''avalanche'' 0 = Some p \<and> \<not> isHealthy p
        \<and> url p = avaxOfficial)
   \<and> getBestProvider ''avalanche'' afterThreeFailures = (Inr avaxAnkr, afterThreeFailures)
   \<and> (\<exists>p. providerAt (advance 299999 afterThreeFailures) ''avalanche'' 0 = Some p
          \<and> \<not> isHealthy p)
   \<and> (\<exists>p. providerAt (advance 300000 afterThreeFailures) ''avalanche'' 0 = Some p
          \<and> isHealthy p \<and> failureCount p = 0)
   \<and> getBestProvider ''avalanche'' (advance 300000 afterThreeFailures)
       = (Inr avaxOfficial, advance 300000 afterThreeFailures)"
proof -
  let ?started = "mkProvider avaxOfficial ''Avalanche Official'' 1"
  let ?failed = "\<lparr>url = avaxOfficial, name = ''Avalanche Official'', priority = 1,
         isHealthy = False, lastCheck = 0, failureCount = 3, avgResponseTime = 0\<rparr>"
  let ?restored = "\<lparr>url = avaxOfficial, name = ''Avalanche Official'', priority = 1,
         isHealthy = True, lastCheck = 0, failureCount = 0, avgResponseTime = 0\<rparr>"
  let ?ankr = "mkProvider avaxAnkr ''Ankr'' 2"
  have key: "toLowerCase ''avalanche'' = ''avalanche''"
    by (simp add: toLowerCase_def lowerChar_def code_def)
  have idx: "findIndex (\<lambda>p. url p = avaxOfficial)
               (providers \<lparr>chainId = ''avalanche'', providers = [?started, ?ankr]\<rparr>) = Some 0"
    by (simp add: mkProvider_def)
  have count: "0 \<le> failureCount
                 (providers \<lparr>chainId = ''avalanche'', providers = [?started, ?ankr]\<rparr> ! 0)"
    by (simp add: mkProvider_def)
  note general = circuit_breaker_without_pending_timer
    [where s = "initialPool noEnv" and chain = "''avalanche''"
       and config = "\<lparr>chainId = ''avalanche'', providers = [?started, ?ankr]\<rparr>"
       and providerUrl = avaxOfficial and i = 0 and ?s3.0 = afterThreeFailures]
  note inst = general [OF avalanche_initial idx count afterThreeFailures_def, unfolded key]
  note flipped = inst [THEN conjunct1]
  note excluding = inst [THEN conjunct2, THEN conjunct1, rule_format]
  note recovering = inst [THEN conjunct2, THEN conjunct2, THEN conjunct2, THEN conjunct1,
    rule_format]
  note waiting_rule = inst [THEN conjunct2, THEN conjunct2, THEN conjunct2, THEN conjunct2,
    THEN conjunct1, THEN mp]
  note electing = inst [THEN conjunct2, THEN conjunct2, THEN conjunct2, THEN conjunct2,
    THEN conjunct2, THEN conjunct1, rule_format]
  let ?cx = "\<lparr>chainId = ''avalanche'', providers = [?failed, ?ankr]\<rparr>"
  have "lookupConfig afterThreeFailures ''avalanche'' = Some ?cx
        \<and> ?failed \<in> set (providers ?cx) \<and> \<not> isHealthy ?failed
        \<and> (\<exists>q \<in> set (providers ?cx). url q \<noteq> [] \<and> isHealthy q)
        \<and> distinct (map url (filter (\<lambda>p. url p \<noteq> []) (providers ?cx)))"
    by (simp add: avalanche_after_three) (simp add: mkProvider_def avaxOfficial_def avaxAnkr_def)
  from excluding [OF this] obtain best where best:
    "getBestProvider ''avalanche'' afterThreeFailures = (Inr (url best), afterThreeFailures)"
    "best \<in> set (providers ?cx)" "isHealthy best"
    by blast
  then have "best = ?ankr"
    by auto
  with best(1) have excluded:
    "getBestProvider ''avalanche'' afterThreeFailures = (Inr avaxAnkr, afterThreeFailures)"
    by (simp add: mkProvider_def)
  have fresh: "\<forall>(t, k, j) \<in> set (timers (initialPool noEnv)). \<not> (k = ''avalanche'' \<and> j = 0)"
    by (simp add: initialPool_def)
  have "(299999::int) < UNHEALTHY_COOLDOWN"
    by (simp add: UNHEALTHY_COOLDOWN_def)
  from waiting_rule [OF fresh, rule_format, OF this] have waiting:
    "\<exists>p. providerAt (advance 299999 afterThreeFailures) ''avalanche'' 0 = Some p
          \<and> \<not> isHealthy p" .
  have "UNHEALTHY_COOLDOWN \<le> (300000::int)"
    by (simp add: UNHEALTHY_COOLDOWN_def)
  from recovering [OF this] have recovered:
    "\<exists>p. providerAt (advance 300000 afterThreeFailures) ''avalanche'' 0 = Some p
          \<and> isHealthy p \<and> failureCount p = 0"
    by blast
  let ?cy = "\<lparr>chainId = ''avalanche'', providers = [?restored, ?ankr]\<rparr>"
  have "lookupConfig (advance 300000 afterThreeFailures) ''avalanche'' = Some ?cy
        \<and> ?restored \<in> set (providers ?cy) \<and> url ?restored \<noteq> [] \<and> isHealthy ?restored
        \<and> (\<forall>q \<in> set (providers ?cy).
              url q \<noteq> [] \<and> isHealthy q \<and> q \<noteq> ?restored \<longrightarrow> priority ?restored < priority q)"
    by (simp add: avalanche_recovered) (simp add: mkProvider_def avaxOfficial_def)
  from electing [OF this]
  have eligible: "getBestProvider ''avalanche'' (advance 300000 afterThreeFailures)
       = (Inr avaxOfficial, advance 300000 afterThreeFailures)"
    by simp
  from flipped excluded waiting recovered eligible show ?thesis
    by blast
qed

text \<open>
  The threshold is three: after two reports the provider is still healthy, with a
  failure count of 2, and is still the one selected.
\<close>

lemma two_failures_stay_healthy:
  "map_option (\<lambda>p. (isHealthy p, failureCount p))
     (providerAt (reportProviderFailure ''avalanche'' avaxOfficial
                    (reportProviderFailure ''avalanche'' avaxOfficial (initialPool noEnv)))
        ''avalanche'' 0) = Some (True, 2)"
  "fst (getBestProvider ''avalanche''
          (reportProviderFailure ''avalanche'' avaxOfficial
             (reportProviderFailure ''avalanche'' avaxOfficial (initialPool noEnv))))
   = Inr avaxOfficial"
  by (simp_all add: pool_eval providerAt_def getBestProvider_def)

text \<open>
  C7 fails on the code. Once a provider has had three consecutive failures reported,
  it is to be left out of the selection, while another provider is healthy, until the
  cool-down of 300000 ms has passed. Both Avalanche providers are marked unhealthy at
  time 0 and reset by exhaustion; the first is marked unhealthy again at 200000 ms and
  the selection turns to the second. At 300000 ms, only 100000 ms into the cool-down,
  the recovery timer of the first outage, which the reset left pending, makes the first
  provider healthy, and it is selected again, the second being healthy all along.
\<close>

theorem stale_timer_ends_cooldown_early:
  "fst (getBestProvider ''avalanche'' bothUnhealthy) = Inr avaxOfficial
   \<and> now failedAgain = 200000
   \<and> map_option (\<lambda>p. (isHealthy p, failureCount p)) (providerAt failedAgain ''avalanche'' 0)
       = Some (False, 3)
   \<and> map_option isHealthy (providerAt failedAgain ''avalanche'' 1) = Some True
   \<and> getBestProvider ''avalanche'' failedAgain = (Inr avaxAnkr, failedAgain)
   \<and> now (advance 100000 failedAgain) = 300000
   \<and> map_option (\<lambda>p. (isHealthy p, failureCount p))
        (providerAt (advance 100000 failedAgain) ''avalanche'' 0) = Some (True, 0)
   \<and> map_option isHealthy (providerAt (advance 100000 failedAgain) ''avalanche'' 1) = Some True
   \<and> fst (getBestProvider ''avalanche'' (advance 100000 failedAgain)) = Inr avaxOfficial"
  by (simp add: bothUnhealthy_def resetByExhaustion_def failedAgain_def
        afterThreeFailures_def pool_eval getBestProvider_def advance_def recoverProvider_def
        providerAt_def)

section \<open>executeWithFailover: results\<close>

lemmas failover_eval =
  executeWithFailover_def getBestProvider_def lookupConfig_def toLowerCase_def lowerChar_def
  code_def reportProviderFailure_def reportProviderSuccess_def setProviders_def
  MAX_FAILURES_BEFORE_UNHEALTHY_def UNHEALTHY_COOLDOWN_def advance_def recoverProvider_def
  initialPool_def INITIAL_RPC_CONFIGS_def envOr_def alchemyUrl_def noEnv_def mkProvider_def
  avaxOfficial_def avaxAnkr_def afterThreeFailures_def timesOut_def exhaustedMessage_def
  backoff_def providerAt_def Let_def

text \<open>
  C6 fails on the code. The pool is the example pool 299900 ms after the first Avalanche
  provider was marked unhealthy, so its recovery timer is due in 100 ms. One attempt is
  made: it selects the second provider, the only healthy one, and the request times out
  after 200 ms, during which the timer has run. The \<^verbatim>\<open>catch\<close> block asks
  \<^verbatim>\<open>getBestProvider\<close> again and is given the first provider, now healthy: the failure
  is counted against the first provider, which served no request, and the count of the
  second, which failed, stays 0.
\<close>

theorem failover_charges_reselected_provider:
  "fst (executeWithFailover ''avalanche'' timesOut 1 (advance 299900 afterThreeFailures))
     = (Inl (''RPC failover exhausted for avalanche: request to '' @ avaxAnkr @ '' timed out''),
        [])
   \<and> map_option failureCount
        (providerAt (advance 299900 afterThreeFailures) ''avalanche'' 0) = Some 3
   \<and> map_option failureCount
        (providerAt (snd (executeWithFailover ''avalanche'' timesOut 1
                            (advance 299900 afterThreeFailures))) ''avalanche'' 0) = Some 1
   \<and> map_option failureCount
        (providerAt (snd (executeWithFailover ''avalanche'' timesOut 1
                            (advance 299900 afterThreeFailures))) ''avalanche'' 1) = Some 0"
  by (simp add: failover_eval executeLoop.simps [of _ _ 1])

text \<open>
  What does hold. When nothing touches the pool while the operation runs, and the
  chain's providers are listed in priority order (as every chain of the table is), the
  second call of \<^verbatim>\<open>getBestProvider\<close> gives the provider of the first, so a single
  failed attempt is counted against the provider it used.
\<close>

lemma reset_keeps_available:
  "filter (\<lambda>p. url p \<noteq> [])
     (map (\<lambda>p. if url p \<noteq> [] then p\<lparr>isHealthy := True, failureCount := 0\<rparr> else p) ps)
   = map (\<lambda>p. p\<lparr>isHealthy := True, failureCount := 0\<rparr>) (filter (\<lambda>p. url p \<noteq> []) ps)"
  by (induction ps) simp_all

lemma reset_all_healthy:
  "filter isHealthy (map (\<lambda>p. p\<lparr>isHealthy := True, failureCount := 0\<rparr>) ps)
   = map (\<lambda>p. p\<lparr>isHealthy := True, failureCount := 0\<rparr>) ps"
  by (induction ps) simp_all

lemma reset_keeps_priority:
  "map priority (map (\<lambda>p. p\<lparr>isHealthy := True, failureCount := 0\<rparr>) ps) = map priority ps"
  by (induction ps) simp_all

lemma getBestProvider_again:
  fixes config :: ChainRPCConfig
  assumes cfg: "lookupConfig s chain = Some config"
    and ordered: "sorted (map priority (providers config))"
    and first_call: "getBestProvider chain s = (Inr u, s1)"
  shows "getBestProvider chain s1 = (Inr u, s1)"
proof (cases "\<exists>q \<in> set (providers config). url q \<noteq> [] \<and> isHealthy q")
  case True
  with cfg obtain best :: RPCProvider where "getBestProvider chain s = (Inr (url best), s)"
    using getBestProvider_healthy [of s chain config] by blast
  with first_call show ?thesis
    by simp
next
  case False
  let ?reset = "\<lambda>p. if url p \<noteq> [] then p\<lparr>isHealthy := True, failureCount := 0\<rparr> else p"
  let ?heal = "\<lambda>p :: RPCProvider. p\<lparr>isHealthy := True, failureCount := 0\<rparr>"
  let ?available = "filter (\<lambda>p. url p \<noteq> []) (providers config)"
  from first_call cfg obtain first others where av: "?available = first # others"
    by (cases ?available) (simp_all add: getBestProvider_def)
  from False have none: "\<forall>q \<in> set (providers config). url q \<noteq> [] \<longrightarrow> \<not> isHealthy q"
    by blast
  from getBestProvider_exhausted [OF cfg av none] first_call
  have u: "u = url first"
    and s1: "s1 = setProviders (toLowerCase chain) (map ?reset (providers config)) s"
    by simp_all
  let ?config1 = "config\<lparr>providers := map ?reset (providers config)\<rparr>"
  have cfg1: "lookupConfig s1 chain = Some ?config1"
    using cfg by (simp add: s1 lookupConfig_def map_of_setProviders)
  have "providers ?config1 = map ?reset (providers config)"
    by simp
  then have available1:
    "filter (\<lambda>p. url p \<noteq> []) (providers ?config1) = ?heal first # map ?heal others"
    by (simp only: reset_keeps_available av list.map)
  have "sorted (map priority (first # others))"
    using sorted_filter [OF ordered, of "\<lambda>p. url p \<noteq> []"] by (simp only: av)
  then have "sorted (map priority (map ?heal (first # others)))"
    by (simp only: reset_keeps_priority)
  then have "sort_key priority (map ?heal (first # others)) = map ?heal (first # others)"
    by (rule sort_key_id_if_sorted)
  then have sorted1:
    "sort_key priority (filter isHealthy (?heal first # map ?heal others))
       = ?heal first # map ?heal others"
    using reset_all_healthy [of "first # others"] by (simp only: list.map)
  have "getBestProvider chain s1 = (Inr (url (?heal first)), s1)"
    unfolding getBestProvider_def
    by (simp only: cfg1 option.case Let_def available1 list.case sorted1)
  with u show ?thesis
    by simp
qed

lemma undisturbed_failure_charged_to_used:
  fixes config :: ChainRPCConfig
  assumes cfg: "lookupConfig s chain = Some config"
    and ordered: "sorted (map priority (providers config))"
    and first_call: "getBestProvider chain s = (Inr u, s1)"
    and rejected: "operation u s1 = (Inl e, s1)"
  shows "executeWithFailover chain operation 1 s
         = ((Inl (exhaustedMessage chain (Some e)), []), reportProviderFailure chain u s1)"
proof -
  have again: "getBestProvider chain s1 = (Inr u, s1)"
    using cfg ordered first_call by (rule getBestProvider_again)
  have last: "executeLoop chain operation 1 1 (Some e) [] (reportProviderFailure chain u s1)
         = ((Inl (exhaustedMessage chain (Some e)), []), reportProviderFailure chain u s1)"
    by (subst executeLoop.simps) simp
  have "executeLoop chain operation 1 0 None [] s
         = executeLoop chain operation 1 1 (Some e) [] (reportProviderFailure chain u s1)"
    by (subst executeLoop.simps) (simp add: first_call rejected again Let_def)
  with last show ?thesis
    using cfg by (simp add: executeWithFailover_def)
qed

text \<open>
  The rest of the claim on a run of the default three attempts from the freshly started
  pool: the delays slept are 2000 and 4000 ms, that is \<open>min (1000 * 2 ^ attempt) 5000\<close>
  after the first and the second failed attempt and none after the last, and the error
  thrown carries the message of the last failure.
\<close>

lemma failover_default_run:
  "fst (executeWithFailover ''avalanche'' timesOut DEFAULT_MAX_RETRIES (initialPool noEnv))
   = (Inl (''RPC failover exhausted for avalanche: request to '' @ avaxOfficial @ '' timed out''),
      [backoff 1, backoff 2])"
  "[backoff 1, backoff 2, backoff 3] = [2000, 4000, 5000]"
  by (simp_all add: failover_eval DEFAULT_MAX_RETRIES_def executeLoop.simps [of _ _ 3])

section \<open>The DApp activity scan: results\<close>

lemma onChunkError_break:
  "onChunkError errorMsg s = (False, s') \<Longrightarrow> degradedMode s' \<and> currentBlock s' = currentBlock s"
  by (auto simp add: onChunkError_def Let_def split: option.splits if_splits)

lemma scanIteration_break:
  "scanIteration getLogs latestBlock s = (False, s')
   \<Longrightarrow> degradedMode s' \<and> currentBlock s' = currentBlock s"
  by (auto simp add: scanIteration_def Let_def dest: onChunkError_break split: sum.splits)

text \<open>The loop is left with the cursor past the last block, or by the \<^verbatim>\<open>break\<close>.\<close>

lemma scanLoop_exit:
  "scanLoop n getLogs latestBlock s = Some s'
   \<Longrightarrow> latestBlock < currentBlock s' \<or> (degradedMode s' \<and> currentBlock s' \<le> latestBlock)"
proof (induction n arbitrary: s)
  case 0
  then show ?case
    by (simp split: if_splits)
next
  case (Suc n)
  show ?case
  proof (cases "currentBlock s \<le> latestBlock")
    case False
    with Suc.prems show ?thesis
      by simp
  next
    case True
    obtain go s1 where it: "scanIteration getLogs latestBlock s = (go, s1)"
      by (cases "scanIteration getLogs latestBlock s")
    show ?thesis
    proof (cases go)
      case True
      with Suc.prems \<open>currentBlock s \<le> latestBlock\<close> it
      have "scanLoop n getLogs latestBlock s1 = Some s'"
        by simp
      then show ?thesis
        by (rule Suc.IH)
    next
      case False
      with Suc.prems \<open>currentBlock s \<le> latestBlock\<close> it have "s' = s1"
        by simp
      with scanIteration_break [of getLogs latestBlock s s'] it False
        \<open>currentBlock s \<le> latestBlock\<close>
      show ?thesis
        by simp
    qed
  qed
qed

lemma coveragePercent_full:
  assumes "fromBlock \<le> latestBlock" "latestBlock < currentBlock s"
  shows "coveragePercent fromBlock latestBlock s = 100"
proof -
  have t: "0 < targetBlocks fromBlock latestBlock"
    using assms by (simp add: targetBlocks_def)
  have a: "actualBlocksScanned fromBlock latestBlock s = targetBlocks fromBlock latestBlock"
    using assms by (simp add: actualBlocksScanned_def targetBlocks_def)
  have one: "double_divide (of_int (targetBlocks fromBlock latestBlock))
               (of_int (targetBlocks fromBlock latestBlock)) = 1"
    using t roundToDouble_of_int [of 1] by (simp add: double_divide_def)
  have "double_times 1 100 = 100"
    using roundToDouble_of_int [of 100] by (simp add: double_times_def)
  then show ?thesis
    using t by (simp add: coveragePercent_def a one Math_round_def)
qed

text \<open>
  The quotient and the product are rounded to doubles before \<^verbatim>\<open>Math.round\<close>: 29 blocks
  of 200 are 14 percent (14.499999999999998 in double precision), where the exact 14.5
  would round to 15; so are 1450 blocks of the default depth of 10000.
\<close>

lemma coveragePercent_rounds_the_double:
  "coveragePercent 0 199 (s\<lparr>currentBlock := 29\<rparr>) = 14"
  "coveragePercent 1 10000 (s\<lparr>currentBlock := 1451\<rparr>) = 14"
  by (simp_all add: coveragePercent_def targetBlocks_def actualBlocksScanned_def
        double_percent_examples)

text \<open>
  C1. For a scan of a non-negative depth up to a latest block that is a non-negative
  safe integer (the block number is a JavaScript number) and that completes: the
  blocks scanned are at most the blocks requested; the coverage is
  \<open>min 100 (round (scanned / requested * 100))\<close>, the division and the multiplication
  being those of double precision and the rounding that of \<^verbatim>\<open>Math.round\<close>; the
  returned \<open>degradedMode\<close> is true exactly when that coverage is below 100; and at a
  coverage of 100 both \<open>degradedMode\<close> and \<open>rateLimited\<close> are returned false, whatever
  the loop had set them to.
\<close>

theorem dapp_scan_coverage_and_degraded:
  assumes "0 \<le> latestBlock" "latestBlock \<le> 9007199254740991" "0 \<le> scanDepth"
    and "scanDAppActivity bound getLogs latestBlock scanDepth = Some (s, r)"
    and "fromBlock = max 0 (latestBlock - scanDepth)"
  shows "actualBlocksScanned fromBlock latestBlock s \<le> targetBlocks fromBlock latestBlock
       \<and> coveragePercent fromBlock latestBlock s
           = min 100 (Math_round
                        (double_times
                           (double_divide (of_int (actualBlocksScanned fromBlock latestBlock s))
                                          (of_int (targetBlocks fromBlock latestBlock)))
                           100))
       \<and> resultDegradedMode r = (coveragePercent fromBlock latestBlock s < 100)
       \<and> (coveragePercent fromBlock latestBlock s = 100
            \<longrightarrow> \<not> resultDegradedMode r \<and> \<not> resultRateLimited r)"
proof -
  have range: "fromBlock \<le> latestBlock"
    using assms(1,3,5) by simp
  then have t: "0 < targetBlocks fromBlock latestBlock"
    by (simp add: targetBlocks_def)
  from assms(4,5) have loop:
    "scanLoop bound getLogs latestBlock (initialScanState fromBlock) = Some s"
    and r: "r = \<lparr>totalTxns = length (allLogs s), scanBlocks = latestBlock - fromBlock,
                  resultDegradedMode = fst (finalizeFlags fromBlock latestBlock s),
                  resultRateLimited = snd (finalizeFlags fromBlock latestBlock s)\<rparr>"
    by (auto simp add: scanDAppActivity_def Let_def split: option.splits)
  have scanned: "actualBlocksScanned fromBlock latestBlock s \<le> targetBlocks fromBlock latestBlock"
    using range by (simp add: actualBlocksScanned_def targetBlocks_def)
  have cov: "coveragePercent fromBlock latestBlock s
           = min 100 (Math_round
                        (double_times
                           (double_divide (of_int (actualBlocksScanned fromBlock latestBlock s))
                                          (of_int (targetBlocks fromBlock latestBlock)))
                           100))"
    using t by (simp add: coveragePercent_def)
  have le: "coveragePercent fromBlock latestBlock s \<le> 100"
    by (simp add: coveragePercent_def)
  from scanLoop_exit [OF loop]
  have degraded: "resultDegradedMode r = (coveragePercent fromBlock latestBlock s < 100)"
  proof
    assume "latestBlock < currentBlock s"
    with range have "coveragePercent fromBlock latestBlock s = 100"
      by (rule coveragePercent_full)
    then show ?thesis
      by (simp add: r finalizeFlags_def)
  next
    assume "degradedMode s \<and> currentBlock s \<le> latestBlock"
    then show ?thesis
      using le by (auto simp add: r finalizeFlags_def Let_def)
  qed
  have full: "coveragePercent fromBlock latestBlock s = 100
            \<longrightarrow> \<not> resultDegradedMode r \<and> \<not> resultRateLimited r"
    by (simp add: r finalizeFlags_def)
  from scanned cov degraded full show ?thesis
    by blast
qed

lemma extractMaxBlockRange_examples:
  "extractMaxBlockRange blockRangeMessage = Some 10"
  "extractMaxBlockRange rateLimitMessage = None"
  "extractMaxBlockRange fiftyBlockMessage = Some 50"
  by (simp_all add: blockRangeMessage_def rateLimitMessage_def fiftyBlockMessage_def
        matchBlockRangeAt_def isDigit_def
        isSpace_def code_def toLowerCase_def lowerChar_def parseInt_def)

lemma isRateLimitMessage_examples:
  "isRateLimitMessage rateLimitMessage"
  "\<not> isRateLimitMessage blockRangeMessage"
  "\<not> isRateLimitMessage fiftyBlockMessage"
  by (simp_all add: rateLimitMessage_def blockRangeMessage_def fiftyBlockMessage_def
        isRateLimitMessage_def)

lemmas scan_eval =
  scanDAppActivity_def initialScanState_def scanIteration_def chunkEnd_def onChunkError_def
  onChunkSuccess_def extractMaxBlockRange_examples isRateLimitMessage_examples Let_def
  finalizeFlags_def coveragePercent_full

text \<open>
  A scan of blocks 70 to 130 through a provider limited to 10 blocks a request: the
  first request is rejected, the loop sets \<open>degradedMode\<close> and goes on in chunks of
  10 to the last block; the result is not degraded.
\<close>

lemma limited_scan_run:
  "scanDAppActivity 20 (rangeLimited 10 blockRangeMessage) 130 60
   = Some (\<lparr>chunkSize = 10, maxChunkSize = 10, minChunkSize = 10, allLogs = [],
            consecutiveErrors = 0, rateLimited = False, degradedMode = True,
            currentBlock = 131, requests = 8\<rparr>,
           \<lparr>totalTxns = 0, scanBlocks = 60, resultDegradedMode = False,
            resultRateLimited = False\<rparr>)"
  by (simp add: scan_eval eval_nat_numeral rangeLimited_def)

theorem dapp_scan_coverage_and_degraded_witness:
  "(\<exists>s r. scanDAppActivity 20 (rangeLimited 10 blockRangeMessage) 130 60 = Some (s, r)
       \<and> degradedMode s \<and> actualBlocksScanned 70 130 s = 61 \<and> targetBlocks 70 130 = 61
       \<and> coveragePercent 70 130 s = 100 \<and> \<not> resultDegradedMode r \<and> \<not> resultRateLimited r)"
proof -
  let ?s = "\<lparr>chunkSize = 10, maxChunkSize = 10, minChunkSize = 10, allLogs = [],
            consecutiveErrors = 0, rateLimited = False, degradedMode = True,
            currentBlock = 131, requests = 8\<rparr>"
  let ?r = "\<lparr>totalTxns = 0, scanBlocks = 60, resultDegradedMode = False,
            resultRateLimited = False\<rparr>"
  have cov: "coveragePercent 70 130 ?s = 100" "actualBlocksScanned 70 130 ?s = 61"
    "targetBlocks 70 130 = 61"
    by (simp_all add: coveragePercent_full targetBlocks_def actualBlocksScanned_def)
  from dapp_scan_coverage_and_degraded
         [where latestBlock = 130 and scanDepth = 60 and bound = 20
            and getLogs = "rangeLimited 10 blockRangeMessage" and s = ?s and r = ?r
            and fromBlock = 70, OF _ _ _ limited_scan_run]
  have "coveragePercent 70 130 ?s = 100 \<longrightarrow> \<not> resultDegradedMode ?r \<and> \<not> resultRateLimited ?r"
    by simp
  with cov have "\<not> resultDegradedMode ?r \<and> \<not> resultRateLimited ?r"
    by blast
  with cov limited_scan_run show ?thesis
    by simp
qed

section \<open>Block range limits: results\<close>

lemma onChunkError_pins:
  assumes "extractMaxBlockRange errorMsg = Some m" "0 < m" "int m < chunkSize s"
  shows "onChunkError errorMsg s
         = (True, s\<lparr>consecutiveErrors := consecutiveErrors s + 1, chunkSize := int m,
                     minChunkSize := int m, maxChunkSize := int m, degradedMode := True\<rparr>)"
  using assms by (simp add: onChunkError_def Let_def)

lemma onChunkError_keeps_pin:
  assumes "pinned L s" "0 < L" "noSmallerLimit L errorMsg"
  shows "pinned L (snd (onChunkError errorMsg s))"
proof -
  have "max L (L div 2) = L"
    using assms(2) by simp
  then show ?thesis
    using assms
    by (auto simp add: onChunkError_def noSmallerLimit_def pinned_def Let_def
          split: option.splits)
qed

lemma onChunkSuccess_keeps_pin:
  "pinned L s \<Longrightarrow> pinned L (onChunkSuccess latestBlock chunkLogs s)"
  by (simp add: onChunkSuccess_def pinned_def)

lemma scanIteration_keeps_pin:
  assumes "pinned L s" "0 < L"
    and "\<forall>k f t msg. getLogs k f t = Inl msg \<longrightarrow> noSmallerLimit L msg"
  shows "pinned L (snd (scanIteration getLogs latestBlock s))"
proof (cases "getLogs (requests s) (currentBlock s) (chunkEnd latestBlock s)")
  case (Inl msg)
  with assms(3) have "noSmallerLimit L msg"
    by blast
  moreover have "pinned L (s\<lparr>requests := Suc (requests s)\<rparr>)"
    using assms(1) by (simp add: pinned_def)
  ultimately show ?thesis
    using Inl assms(2) by (simp add: scanIteration_def onChunkError_keeps_pin)
next
  case (Inr chunkLogs)
  moreover have "pinned L (s\<lparr>requests := Suc (requests s)\<rparr>)"
    using assms(1) by (simp add: pinned_def)
  ultimately show ?thesis
    by (simp add: scanIteration_def onChunkSuccess_keeps_pin)
qed

lemma scanLoop_keeps_pin:
  assumes "pinned L s" "0 < L"
    and "\<forall>k f t msg. getLogs k f t = Inl msg \<longrightarrow> noSmallerLimit L msg"
    and "scanLoop n getLogs latestBlock s = Some s'"
  shows "pinned L s'"
  using assms(1,4)
proof (induction n arbitrary: s)
  case 0
  then show ?case
    by (simp split: if_splits)
next
  case (Suc n)
  show ?case
  proof (cases "currentBlock s \<le> latestBlock")
    case False
    with Suc.prems show ?thesis
      by simp
  next
    case True
    obtain go s1 where it: "scanIteration getLogs latestBlock s = (go, s1)"
      by (cases "scanIteration getLogs latestBlock s")
    have p1: "pinned L s1"
      using scanIteration_keeps_pin [OF Suc.prems(1) assms(2,3), of latestBlock] it by simp
    show ?thesis
    proof (cases go)
      case True
      with Suc.prems(2) \<open>currentBlock s \<le> latestBlock\<close> it
      have "scanLoop n getLogs latestBlock s1 = Some s'"
        by simp
      with p1 show ?thesis
        by (rule Suc.IH)
    next
      case False
      with Suc.prems(2) \<open>currentBlock s \<le> latestBlock\<close> it p1 show ?thesis
        by simp
    qed
  qed
qed

lemma pinned_scan_completes:
  assumes "pinned L s" "0 < L" "currentBlock s \<le> latestBlock + 1"
    and "\<forall>k f t. t - f + 1 \<le> L \<longrightarrow> (\<exists>logs. getLogs k f t = Inr logs)"
    and "nat (latestBlock + 1 - currentBlock s) \<le> n"
  shows "\<exists>s'. scanLoop n getLogs latestBlock s = Some s' \<and> pinned L s'
            \<and> currentBlock s' = latestBlock + 1
            \<and> degradedMode s' = degradedMode s \<and> rateLimited s' = rateLimited s"
  using assms(1,3,5)
proof (induction n arbitrary: s)
  case 0
  then show ?case
    by simp
next
  case (Suc n)
  show ?case
  proof (cases "currentBlock s \<le> latestBlock")
    case False
    with Suc.prems show ?thesis
      by simp
  next
    case True
    let ?end = "chunkEnd latestBlock s"
    have chunk: "chunkSize s = L" "maxChunkSize s = L"
      using Suc.prems(1) by (simp_all add: pinned_def)
    have span: "?end - currentBlock s + 1 \<le> L" "currentBlock s \<le> ?end" "?end \<le> latestBlock"
      using True assms(2) chunk by (simp_all add: chunkEnd_def)
    with assms(4) obtain logs where
      ok: "getLogs (requests s) (currentBlock s) ?end = Inr logs"
      by blast
    let ?s1 = "onChunkSuccess latestBlock logs (s\<lparr>requests := Suc (requests s)\<rparr>)"
    have it: "scanIteration getLogs latestBlock s = (True, ?s1)"
      using ok by (simp add: scanIteration_def)
    have p1: "pinned L ?s1"
      using Suc.prems(1) by (simp add: onChunkSuccess_def pinned_def)
    have cur: "currentBlock ?s1 = ?end + 1"
      by (simp add: onChunkSuccess_def chunkEnd_def)
    have flags: "degradedMode ?s1 = degradedMode s" "rateLimited ?s1 = rateLimited s"
      by (simp_all add: onChunkSuccess_def)
    have "nat (latestBlock + 1 - currentBlock ?s1) \<le> n"
      using Suc.prems(3) span cur by simp
    moreover have "currentBlock ?s1 \<le> latestBlock + 1"
      using span cur by simp
    ultimately obtain s' where
      "scanLoop n getLogs latestBlock ?s1 = Some s'" "pinned L s'"
      "currentBlock s' = latestBlock + 1"
      "degradedMode s' = degradedMode ?s1" "rateLimited s' = rateLimited ?s1"
      using Suc.IH [OF p1] by blast
    then show ?thesis
      using True it flags by simp
  qed
qed

lemma limited_provider_scan:
  assumes lim: "extractMaxBlockRange errorMsg = Some m" "0 < m" "m < 50"
    and range: "0 \<le> latestBlock" "0 \<le> scanDepth"
      "int m < targetBlocks (max 0 (latestBlock - scanDepth)) latestBlock"
    and provider: "\<forall>k f t. (int m < t - f + 1 \<longrightarrow> getLogs k f t = Inl errorMsg)
                       \<and> (t - f + 1 \<le> int m \<longrightarrow> (\<exists>logs. getLogs k f t = Inr logs))"
    and bound: "nat (targetBlocks (max 0 (latestBlock - scanDepth)) latestBlock) < bound"
  shows "\<exists>s r. scanDAppActivity bound getLogs latestBlock scanDepth = Some (s, r)
            \<and> pinned (int m) s
            \<and> coveragePercent (max 0 (latestBlock - scanDepth)) latestBlock s = 100
            \<and> \<not> resultDegradedMode r \<and> \<not> resultRateLimited r"
proof -
  let ?from = "max 0 (latestBlock - scanDepth)"
  let ?s0 = "initialScanState ?from"
  have from_le: "?from \<le> latestBlock"
    using range(1,2) by simp
  have target: "targetBlocks ?from latestBlock = latestBlock - ?from + 1"
    by (simp add: targetBlocks_def)
  obtain n where n: "bound = Suc n"
    using bound by (cases bound) simp_all
  have first_span: "int m < chunkEnd latestBlock ?s0 - currentBlock ?s0 + 1"
    using lim(3) range(3) target by (simp add: chunkEnd_def initialScanState_def)
  with provider have rejected:
    "getLogs (requests ?s0) (currentBlock ?s0) (chunkEnd latestBlock ?s0) = Inl errorMsg"
    by blast
  let ?s1 = "?s0\<lparr>requests := Suc (requests ?s0),
                  consecutiveErrors := consecutiveErrors ?s0 + 1, chunkSize := int m,
                  minChunkSize := int m, maxChunkSize := int m, degradedMode := True\<rparr>"
  have "onChunkError errorMsg (?s0\<lparr>requests := Suc (requests ?s0)\<rparr>) = (True, ?s1)"
    using lim by (subst onChunkError_pins [of errorMsg m]) (simp_all add: initialScanState_def)
  with rejected have it: "scanIteration getLogs latestBlock ?s0 = (True, ?s1)"
    by (simp add: scanIteration_def)
  have p1: "pinned (int m) ?s1"
    by (simp add: pinned_def)
  have cur1: "currentBlock ?s1 = ?from"
    by (simp add: initialScanState_def)
  have "nat (latestBlock + 1 - currentBlock ?s1) \<le> n"
    using bound n target cur1 by simp
  moreover have "currentBlock ?s1 \<le> latestBlock + 1"
    using from_le cur1 by simp
  moreover have "(0::int) < int m"
    using lim(2) by simp
  moreover have "\<forall>k f t. t - f + 1 \<le> int m \<longrightarrow> (\<exists>logs. getLogs k f t = Inr logs)"
    using provider by blast
  ultimately obtain s where
    s: "scanLoop n getLogs latestBlock ?s1 = Some s" "pinned (int m) s"
       "currentBlock s = latestBlock + 1"
    using pinned_scan_completes [OF p1, of latestBlock getLogs n] by blast
  have loop: "scanLoop bound getLogs latestBlock ?s0 = Some s"
    using n it s(1) from_le by (simp add: initialScanState_def)
  have cov: "coveragePercent ?from latestBlock s = 100"
    using from_le s(3) by (intro coveragePercent_full) simp_all
  show ?thesis
    using loop s(2) cov by (simp add: scanDAppActivity_def Let_def finalizeFlags_def)
qed

text \<open>
  C4, as the code has it. A rejected request whose message reports a block range that
  is positive and below the current chunk size pins the chunk size to it (it is also
  made the floor and the cap), marks the scan degraded, leaves the cursor and the logs
  as they are, and the loop goes on from the same cursor. Once pinned, the chunk size
  stays at the limit to the end of the scan, as long as no rejected request reports a
  smaller positive range. And through a provider that rejects exactly the requests for
  more blocks than its limit, with a limit below the first chunk size 50 and below the
  number of blocks to scan, the scan completes pinned to the limit, with a coverage of
  100 and neither \<open>degradedMode\<close> nor \<open>rateLimited\<close> returned.
\<close>

theorem block_range_limit_pins_chunk_size:
  assumes "extractMaxBlockRange errorMsg = Some m" "0 < m"
  shows "(int m < chunkSize s
          \<and> getLogs (requests s) (currentBlock s) (chunkEnd latestBlock s) = Inl errorMsg
          \<longrightarrow> (\<exists>s'. scanIteration getLogs latestBlock s = (True, s') \<and> pinned (int m) s'
                  \<and> currentBlock s' = currentBlock s \<and> allLogs s' = allLogs s
                  \<and> degradedMode s'))
       \<and> (pinned (int m) p
          \<and> (\<forall>k f t msg. getLogs k f t = Inl msg \<longrightarrow> noSmallerLimit (int m) msg)
          \<and> scanLoop n getLogs latestBlock p = Some p'
          \<longrightarrow> pinned (int m) p')
       \<and> (m < 50 \<and> 0 \<le> latestBlock \<and> 0 \<le> scanDepth
          \<and> int m < targetBlocks (max 0 (latestBlock - scanDepth)) latestBlock
          \<and> (\<forall>k f t. (int m < t - f + 1 \<longrightarrow> getLogs k f t = Inl errorMsg)
                    \<and> (t - f + 1 \<le> int m \<longrightarrow> (\<exists>logs. getLogs k f t = Inr logs)))
          \<and> nat (targetBlocks (max 0 (latestBlock - scanDepth)) latestBlock) < bound
          \<longrightarrow> (\<exists>s r. scanDAppActivity bound getLogs latestBlock scanDepth = Some (s, r)
                  \<and> pinned (int m) s
                  \<and> coveragePercent (max 0 (latestBlock - scanDepth)) latestBlock s = 100
                  \<and> \<not> resultDegradedMode r \<and> \<not> resultRateLimited r))"
proof (intro conjI impI)
  assume a: "int m < chunkSize s
          \<and> getLogs (requests s) (currentBlock s) (chunkEnd latestBlock s) = Inl errorMsg"
  then have "onChunkError errorMsg (s\<lparr>requests := Suc (requests s)\<rparr>)
         = (True, s\<lparr>requests := Suc (requests s),
                     consecutiveErrors := consecutiveErrors s + 1, chunkSize := int m,
                     minChunkSize := int m, maxChunkSize := int m, degradedMode := True\<rparr>)"
    using assms by (subst onChunkError_pins [of errorMsg m]) simp_all
  with a show "\<exists>s'. scanIteration getLogs latestBlock s = (True, s') \<and> pinned (int m) s'
                  \<and> currentBlock s' = currentBlock s \<and> allLogs s' = allLogs s
                  \<and> degradedMode s'"
    by (simp add: scanIteration_def pinned_def)
next
  assume "pinned (int m) p
          \<and> (\<forall>k f t msg. getLogs k f t = Inl msg \<longrightarrow> noSmallerLimit (int m) msg)
          \<and> scanLoop n getLogs latestBlock p = Some p'"
  then show "pinned (int m) p'"
    using scanLoop_keeps_pin [of "int m" p getLogs n latestBlock p'] assms(2) by simp
next
  assume "m < 50 \<and> 0 \<le> latestBlock \<and> 0 \<le> scanDepth
          \<and> int m < targetBlocks (max 0 (latestBlock - scanDepth)) latestBlock
          \<and> (\<forall>k f t. (int m < t - f + 1 \<longrightarrow> getLogs k f t = Inl errorMsg)
                    \<and> (t - f + 1 \<le> int m \<longrightarrow> (\<exists>logs. getLogs k f t = Inr logs)))
          \<and> nat (targetBlocks (max 0 (latestBlock - scanDepth)) latestBlock) < bound"
  then show "\<exists>s r. scanDAppActivity bound getLogs latestBlock scanDepth = Some (s, r)
                  \<and> pinned (int m) s
                  \<and> coveragePercent (max 0 (latestBlock - scanDepth)) latestBlock s = 100
                  \<and> \<not> resultDegradedMode r \<and> \<not> resultRateLimited r"
    using limited_provider_scan [OF assms, of latestBlock scanDepth getLogs bound] by blast
qed

text \<open>
  The counterexample to the claim as stated: the first request of a scan (50 blocks) is
  rejected with the message \<^verbatim>\<open>query exceeds 50 block range\<close>. The range is not below the
  chunk size, so nothing is pinned: the chunk size is halved to 25, the floor stays 10
  and the cap 2000.
\<close>

theorem block_range_limit_counterexample:
  "extractMaxBlockRange fiftyBlockMessage = Some 50
   \<and> scanIteration (\<lambda>n f t. Inl fiftyBlockMessage) 1000 (initialScanState 0)
       = (True, \<lparr>chunkSize = 25, maxChunkSize = 2000, minChunkSize = 10, allLogs = [],
                 consecutiveErrors = 1, rateLimited = False, degradedMode = False,
                 currentBlock = 0, requests = 1\<rparr>)
   \<and> \<not> pinned 50 (snd (scanIteration (\<lambda>n f t. Inl fiftyBlockMessage) 1000
                            (initialScanState 0)))"
  by (simp add: scan_eval pinned_def)

lemma pinned_scan_run:
  "scanLoop 10 (rangeLimited 10 blockRangeMessage) 130
     \<lparr>chunkSize = 10, maxChunkSize = 10, minChunkSize = 10, allLogs = [],
      consecutiveErrors = 1, rateLimited = False, degradedMode = True,
      currentBlock = 70, requests = 1\<rparr>
   = Some \<lparr>chunkSize = 10, maxChunkSize = 10, minChunkSize = 10, allLogs = [],
            consecutiveErrors = 0, rateLimited = False, degradedMode = True,
            currentBlock = 131, requests = 8\<rparr>"
  by (simp add: scan_eval eval_nat_numeral rangeLimited_def)

theorem block_range_limit_pins_chunk_size_witness:
  "(\<exists>s'. scanIteration (rangeLimited 10 blockRangeMessage) 130 (initialScanState 70) = (True, s')
         \<and> pinned 10 s' \<and> currentBlock s' = 70 \<and> degradedMode s')
   \<and> pinned 10 \<lparr>chunkSize = 10, maxChunkSize = 10, minChunkSize = 10, allLogs = [],
            consecutiveErrors = 0, rateLimited = False, degradedMode = True,
            currentBlock = 131, requests = 8\<rparr>
   \<and> (\<exists>s r. scanDAppActivity 62 (rangeLimited 10 blockRangeMessage) 130 60 = Some (s, r)
           \<and> pinned 10 s \<and> coveragePercent 70 130 s = 100
           \<and> \<not> resultDegradedMode r \<and> \<not> resultRateLimited r)"
proof -
  let ?g = "rangeLimited 10 blockRangeMessage"
  let ?s0 = "initialScanState 70"
  let ?p = "\<lparr>chunkSize = 10, maxChunkSize = 10, minChunkSize = 10, allLogs = [],
      consecutiveErrors = 1, rateLimited = False, degradedMode = True,
      currentBlock = 70, requests = 1\<rparr>"
  let ?p' = "\<lparr>chunkSize = 10, maxChunkSize = 10, minChunkSize = 10, allLogs = [],
            consecutiveErrors = 0, rateLimited = False, degradedMode = True,
            currentBlock = 131, requests = 8\<rparr>"
  have positive: "(0::nat) < 10"
    by simp
  note inst = block_range_limit_pins_chunk_size
    [where errorMsg = blockRangeMessage and m = 10 and s = ?s0 and getLogs = ?g
       and latestBlock = 130 and p = ?p and p' = ?p' and n = 10 and scanDepth = 60
       and bound = 62, OF extractMaxBlockRange_examples(1) positive]
  have first: "int 10 < chunkSize ?s0
          \<and> ?g (requests ?s0) (currentBlock ?s0) (chunkEnd 130 ?s0) = Inl blockRangeMessage"
    by (simp add: initialScanState_def chunkEnd_def rangeLimited_def)
  have errors: "\<forall>k f t msg. ?g k f t = Inl msg \<longrightarrow> noSmallerLimit (int 10) msg"
    by (simp add: rangeLimited_def noSmallerLimit_def extractMaxBlockRange_examples)
  have "pinned (int 10) ?p"
    by (simp add: pinned_def)
  with errors pinned_scan_run have second:
    "pinned (int 10) ?p \<and> (\<forall>k f t msg. ?g k f t = Inl msg \<longrightarrow> noSmallerLimit (int 10) msg)
     \<and> scanLoop 10 ?g 130 ?p = Some ?p'"
    by blast
  have third: "(10::nat) < 50 \<and> (0::int) \<le> 130 \<and> (0::int) \<le> 60
          \<and> int 10 < targetBlocks (max 0 (130 - 60)) 130
          \<and> (\<forall>k f t. (int 10 < t - f + 1 \<longrightarrow> ?g k f t = Inl blockRangeMessage)
                    \<and> (t - f + 1 \<le> int 10 \<longrightarrow> (\<exists>logs. ?g k f t = Inr logs)))
          \<and> nat (targetBlocks (max 0 (130 - 60)) 130) < 62"
    by (simp add: targetBlocks_def rangeLimited_def)
  from inst first have c1:
    "\<exists>s'. scanIteration ?g 130 ?s0 = (True, s') \<and> pinned (int 10) s'
          \<and> currentBlock s' = currentBlock ?s0 \<and> allLogs s' = allLogs ?s0 \<and> degradedMode s'"
    by simp
  from inst second have c2: "pinned (int 10) ?p'"
    by blast
  from inst third have c3:
    "\<exists>s r. scanDAppActivity 62 ?g 130 60 = Some (s, r) \<and> pinned (int 10) s
          \<and> coveragePercent (max 0 (130 - 60)) 130 s = 100
          \<and> \<not> resultDegradedMode r \<and> \<not> resultRateLimited r"
    by blast
  from c1 have c1': "\<exists>s'. scanIteration ?g 130 ?s0 = (True, s') \<and> pinned 10 s'
          \<and> currentBlock s' = 70 \<and> degradedMode s'"
    by (auto simp add: initialScanState_def)
  from c2 c3 have "pinned 10 ?p'"
    and "\<exists>s r. scanDAppActivity 62 ?g 130 60 = Some (s, r) \<and> pinned 10 s
          \<and> coveragePercent 70 130 s = 100
          \<and> \<not> resultDegradedMode r \<and> \<not> resultRateLimited r"
    by simp_all
  with c1' show ?thesis
    by blast
qed

section \<open>Rate limits: results\<close>

lemma onChunkError_rate_limited:
  assumes "isRateLimitMessage errorMsg" "noSmallerLimit (chunkSize s) errorMsg"
  shows "onChunkError errorMsg s
         = (True, s\<lparr>consecutiveErrors := consecutiveErrors s + 1,
                     chunkSize := max (minChunkSize s) (chunkSize s div 2),
                     rateLimited := True, degradedMode := True\<rparr>)"
  using assms
  by (auto simp add: onChunkError_def noSmallerLimit_def Let_def split: option.splits)

lemma scanIteration_rate_limited:
  assumes "getLogs (requests s) (currentBlock s) (chunkEnd latestBlock s) = Inl errorMsg"
    and "isRateLimitMessage errorMsg" "noSmallerLimit (chunkSize s) errorMsg"
  shows "scanIteration getLogs latestBlock s
         = (True, s\<lparr>requests := Suc (requests s),
                     consecutiveErrors := consecutiveErrors s + 1,
                     chunkSize := max (minChunkSize s) (chunkSize s div 2),
                     rateLimited := True, degradedMode := True\<rparr>)"
  using assms onChunkError_rate_limited [of errorMsg "s\<lparr>requests := Suc (requests s)\<rparr>"]
  by (simp add: scanIteration_def)

lemma isLogLimitError_rateLimitMessage: "isLogLimitError rateLimitMessage"
  by code_simp

text \<open>
  C5, as the code has it, for the DApp activity scanner. A request rejected with a
  rate-limit message (one that does not report a positive block range below the chunk
  size) halves the chunk size, rounded down and not below the floor \<open>minChunkSize\<close>,
  sets \<open>rateLimited\<close> and \<open>degradedMode\<close>, and leaves the cursor and the logs as they
  are. From a chunk size of 2000 with a floor of at most 250, three such rejections in
  a row give the chunk sizes 1000, 500 and 250 with the cursor where it was.
\<close>

theorem rate_limit_halves_chunk_size:
  "(getLogs (requests s) (currentBlock s) (chunkEnd latestBlock s) = Inl errorMsg
      \<and> isRateLimitMessage errorMsg \<and> noSmallerLimit (chunkSize s) errorMsg
     \<longrightarrow> (\<exists>s'. scanIteration getLogs latestBlock s = (True, s')
            \<and> chunkSize s' = max (minChunkSize s) (chunkSize s div 2)
            \<and> minChunkSize s \<le> chunkSize s'
            \<and> currentBlock s' = currentBlock s \<and> allLogs s' = allLogs s
            \<and> minChunkSize s' = minChunkSize s \<and> maxChunkSize s' = maxChunkSize s
            \<and> rateLimited s' \<and> degradedMode s'))
   \<and> (chunkSize a = 2000 \<and> minChunkSize a \<le> 250
      \<and> (\<forall>i < 3. \<forall>f t. \<exists>msg. provider (requests a + i) f t = Inl msg
                              \<and> isRateLimitMessage msg \<and> extractMaxBlockRange msg = None)
     \<longrightarrow> (\<exists>s1 s2 s3. scanIteration provider latest a = (True, s1)
            \<and> scanIteration provider latest s1 = (True, s2)
            \<and> scanIteration provider latest s2 = (True, s3)
            \<and> chunkSize s1 = 1000 \<and> chunkSize s2 = 500 \<and> chunkSize s3 = 250
            \<and> currentBlock s1 = currentBlock a \<and> currentBlock s2 = currentBlock a
            \<and> currentBlock s3 = currentBlock a \<and> allLogs s3 = allLogs a))"
proof (intro conjI impI)
  assume "getLogs (requests s) (currentBlock s) (chunkEnd latestBlock s) = Inl errorMsg
      \<and> isRateLimitMessage errorMsg \<and> noSmallerLimit (chunkSize s) errorMsg"
  then show "\<exists>s'. scanIteration getLogs latestBlock s = (True, s')
            \<and> chunkSize s' = max (minChunkSize s) (chunkSize s div 2)
            \<and> minChunkSize s \<le> chunkSize s'
            \<and> currentBlock s' = currentBlock s \<and> allLogs s' = allLogs s
            \<and> minChunkSize s' = minChunkSize s \<and> maxChunkSize s' = maxChunkSize s
            \<and> rateLimited s' \<and> degradedMode s'"
    by (simp add: scanIteration_rate_limited)
next
  assume a: "chunkSize a = 2000 \<and> minChunkSize a \<le> 250
      \<and> (\<forall>i < 3. \<forall>f t. \<exists>msg. provider (requests a + i) f t = Inl msg
                              \<and> isRateLimitMessage msg \<and> extractMaxBlockRange msg = None)"
  have step: "\<exists>s'. scanIteration provider latest s = (True, s')
            \<and> chunkSize s' = max (minChunkSize s) (chunkSize s div 2)
            \<and> currentBlock s' = currentBlock s \<and> allLogs s' = allLogs s
            \<and> minChunkSize s' = minChunkSize s \<and> requests s' = Suc (requests s)"
    if "requests s = requests a + i" "i < 3" for s i
  proof -
    from a that obtain msg where
      "provider (requests s) (currentBlock s) (chunkEnd latest s) = Inl msg"
      "isRateLimitMessage msg" "extractMaxBlockRange msg = None"
      by metis
    then show ?thesis
      by (simp add: scanIteration_rate_limited noSmallerLimit_def)
  qed
  from step [of a 0] a obtain s1 where
    s1: "scanIteration provider latest a = (True, s1)" "chunkSize s1 = 1000"
        "currentBlock s1 = currentBlock a" "allLogs s1 = allLogs a"
        "minChunkSize s1 = minChunkSize a" "requests s1 = requests a + 1"
    by auto
  from step [of s1 1] s1 a obtain s2 where
    s2: "scanIteration provider latest s1 = (True, s2)" "chunkSize s2 = 500"
        "currentBlock s2 = currentBlock a" "allLogs s2 = allLogs a"
        "minChunkSize s2 = minChunkSize a" "requests s2 = requests a + 2"
    by auto
  from step [of s2 2] s2 a obtain s3 where
    s3: "scanIteration provider latest s2 = (True, s3)" "chunkSize s3 = 250"
        "currentBlock s3 = currentBlock a" "allLogs s3 = allLogs a"
    by auto
  from s1 s2 s3 show "\<exists>s1 s2 s3. scanIteration provider latest a = (True, s1)
            \<and> scanIteration provider latest s1 = (True, s2)
            \<and> scanIteration provider latest s2 = (True, s3)
            \<and> chunkSize s1 = 1000 \<and> chunkSize s2 = 500 \<and> chunkSize s3 = 250
            \<and> currentBlock s1 = currentBlock a \<and> currentBlock s2 = currentBlock a
            \<and> currentBlock s3 = currentBlock a \<and> allLogs s3 = allLogs a"
    by blast
qed

text \<open>
  The counterexample to the claim as stated, in the holder scanner, the scanner that
  starts with a chunk size of 2000: the provider rejects the first three requests with
  a rate-limit message. They are for blocks 0 to 1999, 0 to 999 and 0 to 499; the third
  is made at chunk size 500, which is not halved again: the chunk is counted as failed
  and the fourth request is for blocks 500 to 999. No request is for 250 blocks, and
  blocks 0 to 499 are never fetched.
\<close>

theorem holder_scan_rate_limit_counterexample:
  "fetchAllChunks (rejectFirst 3 rateLimitMessage) 1999 0
     \<lparr>fetchedLogs = [], failedChunks = 0, successfulChunks = 0, fetchRequests = 0\<rparr>
   = \<lparr>fetchedLogs = [rangeMarker 500, rangeMarker 999, rangeMarker 1000, rangeMarker 1999],
      failedChunks = 1, successfulChunks = 2, fetchRequests = 5\<rparr>"
  by (simp add: fetchAllChunks.simps fetchChunkWithRetry.simps rejectFirst_def
        isLogLimitError_rateLimitMessage INITIAL_CHUNK_SIZE_def)

theorem rate_limit_halves_chunk_size_witness:
  "(\<exists>s1 s2 s3.
      scanIteration (rejectFirst 3 rateLimitMessage) 5000
        ((initialScanState 1000)\<lparr>chunkSize := 2000\<rparr>) = (True, s1)
      \<and> scanIteration (rejectFirst 3 rateLimitMessage) 5000 s1 = (True, s2)
      \<and> scanIteration (rejectFirst 3 rateLimitMessage) 5000 s2 = (True, s3)
      \<and> chunkSize s1 = 1000 \<and> chunkSize s2 = 500 \<and> chunkSize s3 = 250
      \<and> currentBlock s3 = 1000)
   \<and> (\<exists>s'. scanIteration (rejectFirst 3 rateLimitMessage) 5000
              ((initialScanState 1000)\<lparr>chunkSize := 15\<rparr>) = (True, s')
         \<and> chunkSize s' = 10 \<and> currentBlock s' = 1000 \<and> rateLimited s')"
proof -
  let ?g = "rejectFirst 3 rateLimitMessage"
  let ?a = "(initialScanState 1000)\<lparr>chunkSize := 2000\<rparr>"
  let ?s = "(initialScanState 1000)\<lparr>chunkSize := 15\<rparr>"
  note inst = rate_limit_halves_chunk_size
    [where getLogs = ?g and s = ?s and latestBlock = 5000 and errorMsg = rateLimitMessage
       and a = ?a and provider = ?g and latest = 5000]
  have one: "?g (requests ?s) (currentBlock ?s) (chunkEnd 5000 ?s) = Inl rateLimitMessage
      \<and> isRateLimitMessage rateLimitMessage \<and> noSmallerLimit (chunkSize ?s) rateLimitMessage"
    by (simp add: rejectFirst_def initialScanState_def noSmallerLimit_def
          extractMaxBlockRange_examples isRateLimitMessage_examples)
  have three: "chunkSize ?a = 2000 \<and> minChunkSize ?a \<le> 250
      \<and> (\<forall>i < 3. \<forall>f t. \<exists>msg. ?g (requests ?a + i) f t = Inl msg
                              \<and> isRateLimitMessage msg \<and> extractMaxBlockRange msg = None)"
    by (simp add: rejectFirst_def initialScanState_def extractMaxBlockRange_examples
          isRateLimitMessage_examples)
  from inst one have "\<exists>s'. scanIteration ?g 5000 ?s = (True, s')
            \<and> chunkSize s' = max (minChunkSize ?s) (chunkSize ?s div 2)
            \<and> minChunkSize ?s \<le> chunkSize s'
            \<and> currentBlock s' = currentBlock ?s \<and> allLogs s' = allLogs ?s
            \<and> minChunkSize s' = minChunkSize ?s \<and> maxChunkSize s' = maxChunkSize ?s
            \<and> rateLimited s' \<and> degradedMode s'"
    by blast
  then have c1: "\<exists>s'. scanIteration ?g 5000 ?s = (True, s')
         \<and> chunkSize s' = 10 \<and> currentBlock s' = 1000 \<and> rateLimited s'"
    by (auto simp add: initialScanState_def)
  from inst three have "\<exists>s1 s2 s3. scanIteration ?g 5000 ?a = (True, s1)
            \<and> scanIteration ?g 5000 s1 = (True, s2)
            \<and> scanIteration ?g 5000 s2 = (True, s3)
            \<and> chunkSize s1 = 1000 \<and> chunkSize s2 = 500 \<and> chunkSize s3 = 250
            \<and> currentBlock s1 = currentBlock ?a \<and> currentBlock s2 = currentBlock ?a
            \<and> currentBlock s3 = currentBlock ?a \<and> allLogs s3 = allLogs ?a"
    by blast
  then have c3: "\<exists>s1 s2 s3. scanIteration ?g 5000 ?a = (True, s1)
            \<and> scanIteration ?g 5000 s1 = (True, s2)
            \<and> scanIteration ?g 5000 s2 = (True, s3)
            \<and> chunkSize s1 = 1000 \<and> chunkSize s2 = 500 \<and> chunkSize s3 = 250
            \<and> currentBlock s3 = 1000"
    by (auto simp add: initialScanState_def)
  from c1 c3 show ?thesis
    by blast
qed

section \<open>The balance ledger: results\<close>

lemma ledgerSum_update:
  "distinct (map fst al) \<Longrightarrow>
   ledgerSum (AList.update k v al) = ledgerSum al - getBalance al k + v"
proof (induction al)
  case Nil
  then show ?case
    by (simp add: ledgerSum_def getBalance_def)
next
  case (Cons p al)
  then show ?case
    by (cases p)
       (auto simp add: ledgerSum_def getBalance_def map_of_eq_None_iff image_iff
             split: option.splits)
qed

lemma getBalance_update:
  "getBalance (AList.update k v al) k' = (if k' = k then v else getBalance al k')"
  by (simp add: getBalance_def update_conv')

lemma applyTransferLog_distinct:
  "distinct (map fst bal) \<Longrightarrow> distinct (map fst (applyTransferLog bal l))"
  by (auto simp add: applyTransferLog_def Let_def distinct_update split: option.splits)

lemma buildLedger_snoc:
  "buildLedger (logs @ [l]) = applyTransferLog (buildLedger logs) l"
  by (simp add: buildLedger_def)

lemma foldl_applyTransferLog_distinct:
  "distinct (map fst bal) \<Longrightarrow> distinct (map fst (foldl applyTransferLog bal logs))"
  by (induction logs arbitrary: bal) (simp_all add: applyTransferLog_distinct)

lemma buildLedger_distinct: "distinct (map fst (buildLedger logs))"
  by (simp add: buildLedger_def foldl_applyTransferLog_distinct)

lemma applyTransferLog_unparsed:
  "BigInt (data l) = None \<Longrightarrow> applyTransferLog bal l = bal"
  by (simp add: applyTransferLog_def)

lemma applyTransferLog_transfer_sum:
  assumes d: "distinct (map fst bal)"
    and f: "topicAddress l 1 = Some sender" "sender \<noteq> ZERO_ADDRESS"
    and t: "topicAddress l 2 = Some receiver" "receiver \<noteq> ZERO_ADDRESS"
  shows "ledgerSum (applyTransferLog bal l) = ledgerSum bal"
proof (cases "BigInt (data l)")
  case None
  then show ?thesis
    by (simp add: applyTransferLog_unparsed)
next
  case (Some v)
  let ?b1 = "AList.update (toLowerCase sender) (getBalance bal (toLowerCase sender) - v) bal"
  have d1: "distinct (map fst ?b1)"
    using d by (simp add: distinct_update)
  have s1: "ledgerSum ?b1 = ledgerSum bal - v"
    using d by (simp add: ledgerSum_update)
  have "applyTransferLog bal l =
          AList.update (toLowerCase receiver) (getBalance ?b1 (toLowerCase receiver) + v) ?b1"
    using Some f t by (simp add: applyTransferLog_def Let_def)
  then show ?thesis
    using d1 s1 by (simp add: ledgerSum_update)
qed

lemma applyTransferLog_mint:
  assumes "topicAddress l 1 = Some ZERO_ADDRESS"
    and "topicAddress l 2 = Some receiver" "receiver \<noteq> ZERO_ADDRESS"
    and "BigInt (data l) = Some v"
  shows "applyTransferLog bal l =
           AList.update (toLowerCase receiver) (getBalance bal (toLowerCase receiver) + v) bal"
  using assms by (simp add: applyTransferLog_def Let_def)

lemma applyTransferLog_burn:
  assumes "topicAddress l 1 = Some sender" "sender \<noteq> ZERO_ADDRESS"
    and "topicAddress l 2 = Some ZERO_ADDRESS"
    and "BigInt (data l) = Some v"
  shows "applyTransferLog bal l =
           AList.update (toLowerCase sender) (getBalance bal (toLowerCase sender) - v) bal"
  using assms by (simp add: applyTransferLog_def Let_def)

text \<open>Neither endpoint of the log is missing or the zero address.\<close>

lemma foldl_closed_system:
  assumes "distinct (map fst bal)"
    and "\<forall>l \<in> set logs. \<exists>sender receiver.
            topicAddress l 1 = Some sender \<and> sender \<noteq> ZERO_ADDRESS
            \<and> topicAddress l 2 = Some receiver \<and> receiver \<noteq> ZERO_ADDRESS"
  shows "ledgerSum (foldl applyTransferLog bal logs) = ledgerSum bal"
  using assms
proof (induction logs arbitrary: bal)
  case Nil
  then show ?case by simp
next
  case (Cons l logs)
  from Cons.prems(2) obtain sender receiver where
    ends: "topicAddress l 1 = Some sender" "sender \<noteq> ZERO_ADDRESS"
          "topicAddress l 2 = Some receiver" "receiver \<noteq> ZERO_ADDRESS"
    by auto
  have step: "ledgerSum (applyTransferLog bal l) = ledgerSum bal"
    using Cons.prems(1) ends by (rule applyTransferLog_transfer_sum)
  have "ledgerSum (foldl applyTransferLog (applyTransferLog bal l) logs)
          = ledgerSum (applyTransferLog bal l)"
    using Cons.prems by (intro Cons.IH) (simp_all add: applyTransferLog_distinct)
  with step show ?case
    by simp
qed

lemma buildLedger_closed_system:
  assumes "\<forall>l \<in> set logs. \<exists>sender receiver.
            topicAddress l 1 = Some sender \<and> sender \<noteq> ZERO_ADDRESS
            \<and> topicAddress l 2 = Some receiver \<and> receiver \<noteq> ZERO_ADDRESS"
  shows "ledgerSum (buildLedger logs) = 0"
  using foldl_closed_system [of "[]" logs] assms
  by (simp add: buildLedger_def ledgerSum_def)

text \<open>
  C2. For Transfer logs that carry both endpoints: when no endpoint is the zero
  address, the deltas of the ledger sum to zero. A mint (sender the zero address) only
  adds the value to the receiver, and raises the sum by the value; a burn (receiver the
  zero address) only subtracts it from the sender, and lowers the sum by the value. So
  a sum other than zero needs a log with a zero-address endpoint.
\<close>

theorem holder_ledger_closed_system:
  "((\<forall>l \<in> set logs. \<exists>sender receiver.
        topicAddress l 1 = Some sender \<and> sender \<noteq> ZERO_ADDRESS
        \<and> topicAddress l 2 = Some receiver \<and> receiver \<noteq> ZERO_ADDRESS)
     \<longrightarrow> ledgerSum (buildLedger logs) = 0)
   \<and> (topicAddress mint 1 = Some ZERO_ADDRESS \<and> topicAddress mint 2 = Some receiver
       \<and> receiver \<noteq> ZERO_ADDRESS \<and> BigInt (data mint) = Some v
     \<longrightarrow> buildLedger (before @ [mint])
           = AList.update (toLowerCase receiver)
               (getBalance (buildLedger before) (toLowerCase receiver) + v) (buildLedger before)
         \<and> ledgerSum (buildLedger (before @ [mint])) = ledgerSum (buildLedger before) + v)
   \<and> (topicAddress burn 1 = Some sender \<and> sender \<noteq> ZERO_ADDRESS
       \<and> topicAddress burn 2 = Some ZERO_ADDRESS \<and> BigInt (data burn) = Some w
     \<longrightarrow> buildLedger (before @ [burn])
           = AList.update (toLowerCase sender)
               (getBalance (buildLedger before) (toLowerCase sender) - w) (buildLedger before)
         \<and> ledgerSum (buildLedger (before @ [burn])) = ledgerSum (buildLedger before) - w)
   \<and> ((\<forall>l \<in> set open_logs. topicAddress l 1 \<noteq> None \<and> topicAddress l 2 \<noteq> None)
       \<and> ledgerSum (buildLedger open_logs) \<noteq> 0
     \<longrightarrow> (\<exists>l \<in> set open_logs. topicAddress l 1 = Some ZERO_ADDRESS
                              \<or> topicAddress l 2 = Some ZERO_ADDRESS))"
proof (intro conjI impI)
  assume "\<forall>l \<in> set logs. \<exists>sender receiver.
        topicAddress l 1 = Some sender \<and> sender \<noteq> ZERO_ADDRESS
        \<and> topicAddress l 2 = Some receiver \<and> receiver \<noteq> ZERO_ADDRESS"
  then show "ledgerSum (buildLedger logs) = 0"
    by (rule buildLedger_closed_system)
next
  assume m: "topicAddress mint 1 = Some ZERO_ADDRESS \<and> topicAddress mint 2 = Some receiver
       \<and> receiver \<noteq> ZERO_ADDRESS \<and> BigInt (data mint) = Some v"
  then show eq: "buildLedger (before @ [mint])
           = AList.update (toLowerCase receiver)
               (getBalance (buildLedger before) (toLowerCase receiver) + v) (buildLedger before)"
    by (simp add: buildLedger_snoc applyTransferLog_mint)
  show "ledgerSum (buildLedger (before @ [mint])) = ledgerSum (buildLedger before) + v"
    by (simp add: eq ledgerSum_update buildLedger_distinct)
next
  assume b: "topicAddress burn 1 = Some sender \<and> sender \<noteq> ZERO_ADDRESS
       \<and> topicAddress burn 2 = Some ZERO_ADDRESS \<and> BigInt (data burn) = Some w"
  then show eq: "buildLedger (before @ [burn])
           = AList.update (toLowerCase sender)
               (getBalance (buildLedger before) (toLowerCase sender) - w) (buildLedger before)"
    by (simp add: buildLedger_snoc applyTransferLog_burn)
  show "ledgerSum (buildLedger (before @ [burn])) = ledgerSum (buildLedger before) - w"
    by (simp add: eq ledgerSum_update buildLedger_distinct)
next
  assume a: "(\<forall>l \<in> set open_logs. topicAddress l 1 \<noteq> None \<and> topicAddress l 2 \<noteq> None)
       \<and> ledgerSum (buildLedger open_logs) \<noteq> 0"
  show "\<exists>l \<in> set open_logs. topicAddress l 1 = Some ZERO_ADDRESS
                              \<or> topicAddress l 2 = Some ZERO_ADDRESS"
  proof (rule ccontr)
    assume "\<not> ?thesis"
    with a have "\<forall>l \<in> set open_logs. \<exists>sender receiver.
        topicAddress l 1 = Some sender \<and> sender \<noteq> ZERO_ADDRESS
        \<and> topicAddress l 2 = Some receiver \<and> receiver \<noteq> ZERO_ADDRESS"
      by fastforce
    then have "ledgerSum (buildLedger open_logs) = 0"
      by (rule buildLedger_closed_system)
    with a show False
      by simp
  qed
qed

lemma topicAddress_transferLog:
  "topicAddress (transferLog sender receiver v) 1 = Some (''0x'' @ sender)"
  "topicAddress (transferLog sender receiver v) (Suc 0) = Some (''0x'' @ sender)"
  "topicAddress (transferLog sender receiver v) 2 = Some (''0x'' @ receiver)"
  by (simp_all add: topicAddress_def transferLog_def ERC20_TRANSFER_TOPIC_def)

lemma example_addresses_not_zero:
  "CHR ''0'' # CHR ''x'' # addrA \<noteq> ZERO_ADDRESS"
  "CHR ''0'' # CHR ''x'' # addrB \<noteq> ZERO_ADDRESS"
  "CHR ''0'' # CHR ''x'' # addrC \<noteq> ZERO_ADDRESS"
  "CHR ''0'' # CHR ''x'' # addrD \<noteq> ZERO_ADDRESS"
  "CHR ''0'' # CHR ''x'' # addrZero = ZERO_ADDRESS"
  by (simp_all add: addrA_def addrB_def addrC_def addrD_def addrZero_def ZERO_ADDRESS_def)

lemma BigInt_examples:
  "BigInt ''0x0a'' = Some 10" "BigInt ''0x03'' = Some 3" "BigInt ''0x04'' = Some 4"
  "BigInt ''0x64'' = Some 100" "BigInt ''0x'' = None" "BigInt ''100'' = Some 100"
  by (simp_all add: BigInt_def trim_def isSpace_def code_def parseLiteral_def digitValue_def)

theorem holder_ledger_closed_system_witness:
  "ledgerSum (buildLedger [transferLog addrA addrB ''0x0a'', transferLog addrB addrC ''0x03''])
     = 0
   \<and> ledgerSum (buildLedger [transferLog addrA addrB ''0x0a'',
                              transferLog addrZero addrC ''0x64'']) = 100
   \<and> ledgerSum (buildLedger [transferLog addrA addrB ''0x0a'',
                              transferLog addrB addrZero ''0x04'']) = - 4"
proof -
  let ?t1 = "transferLog addrA addrB ''0x0a''"
  let ?t2 = "transferLog addrB addrC ''0x03''"
  let ?mint = "transferLog addrZero addrC ''0x64''"
  let ?burn = "transferLog addrB addrZero ''0x04''"
  note inst = holder_ledger_closed_system
    [of "[?t1, ?t2]" ?mint "''0x'' @ addrC" 100 "[?t1]" ?burn "''0x'' @ addrB" 4 "[?t1, ?mint]"]
  have closed: "\<forall>l \<in> set [?t1, ?t2]. \<exists>sender receiver.
        topicAddress l 1 = Some sender \<and> sender \<noteq> ZERO_ADDRESS
        \<and> topicAddress l 2 = Some receiver \<and> receiver \<noteq> ZERO_ADDRESS"
    by (simp add: topicAddress_transferLog example_addresses_not_zero)
  have base: "ledgerSum (buildLedger [?t1]) = 0"
    using buildLedger_closed_system [of "[?t1]"]
    by (simp add: topicAddress_transferLog example_addresses_not_zero)
  have mint: "topicAddress ?mint 1 = Some ZERO_ADDRESS
              \<and> topicAddress ?mint 2 = Some (''0x'' @ addrC)
              \<and> ''0x'' @ addrC \<noteq> ZERO_ADDRESS \<and> BigInt (data ?mint) = Some 100"
    by (simp add: topicAddress_transferLog example_addresses_not_zero)
       (simp add: transferLog_def BigInt_examples)
  have burn: "topicAddress ?burn 1 = Some (''0x'' @ addrB) \<and> ''0x'' @ addrB \<noteq> ZERO_ADDRESS
              \<and> topicAddress ?burn 2 = Some ZERO_ADDRESS \<and> BigInt (data ?burn) = Some 4"
    by (simp add: topicAddress_transferLog example_addresses_not_zero)
       (simp add: transferLog_def BigInt_examples)
  from inst closed have c1: "ledgerSum (buildLedger [?t1, ?t2]) = 0"
    by blast
  from inst mint have "ledgerSum (buildLedger ([?t1] @ [?mint])) = ledgerSum (buildLedger [?t1]) + 100"
    by blast
  with base have c2: "ledgerSum (buildLedger [?t1, ?mint]) = 100"
    by simp
  from inst burn have "ledgerSum (buildLedger ([?t1] @ [?burn])) = ledgerSum (buildLedger [?t1]) - 4"
    by blast
  with base have c3: "ledgerSum (buildLedger [?t1, ?burn]) = - 4"
    by simp
  from c1 c2 c3 show ?thesis
    by blast
qed

section \<open>Ranking and percentages: results\<close>

lemma set_AList_update_subset:
  "set (AList.update k v al) \<subseteq> insert (k, v) (set al)"
  by (induction al) auto

lemma keepPositive_positive:
  "(\<forall>(a, b) \<in> set acc. 0 < b) \<Longrightarrow> (\<forall>(a, b) \<in> set (keepPositive acc rs). 0 < b)"
  unfolding keepPositive_def
proof (induction rs arbitrary: acc)
  case Nil
  then show ?case by simp
next
  case (Cons r rs)
  obtain a b where r: "r = (a, b)"
    by (cases r)
  have "\<forall>(a, b) \<in> set (if 0 < b then AList.update a b acc else acc). 0 < b"
    using Cons.prems set_AList_update_subset [of a b acc] by auto
  then show ?case
    using Cons.IH r by simp
qed

lemma verifyBalances_positive:
  "(\<forall>(a, b) \<in> set acc. 0 < b)
   \<Longrightarrow> (\<forall>(a, b) \<in> set (verifyBalances balanceOf addresses i acc). 0 < b)"
proof (induction balanceOf addresses i acc rule: verifyBalances.induct)
  case (1 balanceOf addresses i actualBalances)
  show ?case
  proof (cases "i < length addresses")
    case True
    have "\<forall>(a, b) \<in> set (keepPositive actualBalances
             (map (queryBalance balanceOf) (take BATCH_SIZE (drop i addresses)))). 0 < b"
      using "1.prems" by (rule keepPositive_positive)
    with "1.IH" True show ?thesis
      by (subst verifyBalances.simps) (simp add: Let_def)
  next
    case False
    with "1.prems" show ?thesis
      by (subst verifyBalances.simps) simp
  qed
qed

lemma actualBalancesOf_positive:
  "\<forall>(a, b) \<in> set (actualBalancesOf approximateMode balanceOf balances). 0 < b"
  using keepPositive_positive [of "[]" balances]
        verifyBalances_positive [of "[]" balanceOf "map fst balances" 0]
  by (simp add: actualBalancesOf_def)

lemma sum_list_insort_key:
  fixes g :: "'a \<Rightarrow> rat"
  shows "sum_list (map g (insort_key f x xs)) = g x + sum_list (map g xs)"
  by (induction xs) simp_all

lemma sum_list_sort_key:
  fixes g :: "'a \<Rightarrow> rat"
  shows "sum_list (map g (sort_key f xs)) = sum_list (map g xs)"
  by (induction xs) (simp_all add: sum_list_insort_key)

lemma sum_list_insort_key_int:
  fixes g :: "'a \<Rightarrow> int"
  shows "sum_list (map g (insort_key f x xs)) = g x + sum_list (map g xs)"
  by (induction xs) simp_all

lemma sum_list_sort_key_int:
  fixes g :: "'a \<Rightarrow> int"
  shows "sum_list (map g (sort_key f xs)) = sum_list (map g xs)"
  by (induction xs) (simp_all add: sum_list_insort_key_int)

lemma bigintDiv_nonneg:
  "0 \<le> a \<Longrightarrow> 0 < b \<Longrightarrow> bigintDiv a b = a div b"
  by (cases "a = 0") (simp_all add: bigintDiv_def)

lemma basis_points_bounded:
  fixes S :: int
  assumes S: "0 < S" and pos: "\<forall>b \<in> set bs. 0 < b"
  shows "sum_list (map (\<lambda>b. (b * 10000) div S) bs) * S \<le> 10000 * sum_list bs"
  using pos
proof (induction bs)
  case Nil
  then show ?case by simp
next
  case (Cons b bs)
  have "(b * 10000) div S * S = b * 10000 - (b * 10000) mod S"
    by (simp add: minus_mod_eq_div_mult)
  moreover have "0 \<le> (b * 10000) mod S"
    using S by simp
  ultimately have "(b * 10000) div S * S \<le> b * 10000"
    by simp
  moreover have "sum_list (map (\<lambda>b. (b * 10000) div S) bs) * S \<le> 10000 * sum_list bs"
    using Cons by simp
  ultimately show ?case
    by (simp add: algebra_simps)
qed

lemma sortedHolders_ranked:
  assumes "i < length (sortedHolders S actual)" "j < length (sortedHolders S actual)"
    and "sh_balance (sortedHolders S actual ! j) < sh_balance (sortedHolders S actual ! i)"
  shows "i < j"
proof (rule ccontr)
  let ?hs = "sortedHolders S actual"
  assume "\<not> i < j"
  then have "j \<le> i"
    by simp
  moreover have "sorted (map (\<lambda>h. - sh_balance h) ?hs)"
    unfolding sortedHolders_def by (rule sorted_sort_key)
  ultimately have "map (\<lambda>h. - sh_balance h) ?hs ! j \<le> map (\<lambda>h. - sh_balance h) ?hs ! i"
    using assms(1) by (simp add: sorted_iff_nth_mono del: nth_map)
  then have "sh_balance (?hs ! i) \<le> sh_balance (?hs ! j)"
    using assms(1,2) by simp
  with assms(3) show False
    by simp
qed

lemma sortedHolders_entries:
  assumes pos: "\<forall>(a, b) \<in> set actual. 0 < b" and h: "h \<in> set (sortedHolders S actual)"
  shows "0 < sh_balance h"
    and "sh_percentage h
         = (if 0 < S then double_divide (Number ((sh_balance h * 10000) div S)) 100 else 0)"
proof -
  from h obtain a b where ab: "(a, b) \<in> set actual"
    and hab: "h = \<lparr>sh_address = a, sh_balance = b, sh_percentage = percentageOf S b\<rparr>"
    by (auto simp add: sortedHolders_def)
  from pos ab have b: "0 < b"
    by auto
  with hab show "0 < sh_balance h"
    by simp
  show "sh_percentage h
        = (if 0 < S then double_divide (Number ((sh_balance h * 10000) div S)) 100 else 0)"
    using hab b by (simp add: percentageOf_def bigintDiv_nonneg)
qed

lemma sortedHolders_sums:
  "sum_list (map sh_balance (sortedHolders S actual)) = sum_list (map snd actual)"
  "sum_list (map sh_percentage (sortedHolders S actual))
     = sum_list (map (\<lambda>b. percentageOf S b) (map snd actual))"
  "sum_list (map (\<lambda>h. (sh_balance h * 10000) div S) (sortedHolders S actual))
     = sum_list (map (\<lambda>b. (b * 10000) div S) (map snd actual))"
  by (simp_all add: sortedHolders_def sum_list_sort_key sum_list_sort_key_int comp_def
        case_prod_unfold)

lemma member_le_sum_list_int:
  fixes xs :: "int list"
  assumes "\<forall>x \<in> set xs. 0 \<le> x" "x \<in> set xs"
  shows "x \<le> sum_list xs"
  using assms
proof (induction xs)
  case Nil
  then show ?case by simp
next
  case (Cons y ys)
  have "0 \<le> sum_list ys"
    using Cons.prems(1) by (intro sum_list_nonneg) simp
  with Cons show ?case
    by auto
qed

text \<open>
  The basis points are integers below \<open>2\<^sup>5\<^sup>3\<close>, so \<^verbatim>\<open>Number\<close> is exact on them; the
  division by 100 is rounded, by at most one part in \<open>2\<^sup>5\<^sup>3\<close> upwards, and never past
  100.
\<close>

lemma percentage_of_basis_points:
  assumes "0 \<le> n" "n \<le> 10000"
  shows "double_divide (Number n) 100 \<le> of_int n / 100 + of_int n / 100 / 9007199254740992"
    and "double_divide (Number n) 100 \<le> 100"
proof -
  have exact: "Number n = of_int n"
    unfolding Number_def using assms by (intro roundToDouble_of_int) simp_all
  show "double_divide (Number n) 100 \<le> of_int n / 100 + of_int n / 100 / 9007199254740992"
  proof (cases "n = 0")
    case True
    with exact have "Number 0 = 0"
      by simp
    then show ?thesis
      by (simp add: True double_divide_def)
  next
    case False
    with assms have "(1::rat) \<le> of_int n"
      by simp
    then have "(1::rat) / 100 \<le> of_int n / 100"
      by simp
    moreover have "pow2 (- 1022) \<le> pow2 (- 7)"
      by (rule pow2_mono) simp
    moreover have "pow2 (- 7) \<le> 1 / 100"
      by (simp add: pow2_def)
    ultimately have "pow2 (- 1022) \<le> of_int n / 100"
      by linarith
    then show ?thesis
      unfolding exact double_divide_def by (rule roundToDouble_upper)
  qed
  have "(of_int n :: rat) \<le> 10000"
    using assms by simp
  then have "(of_int n :: rat) / 100 \<le> of_int 100"
    by simp
  moreover have "(0::rat) \<le> of_int n / 100"
    using assms by simp
  ultimately have "roundToDouble (of_int n / 100) \<le> roundToDouble (of_int 100)"
    by (intro roundToDouble_mono)
  moreover have "roundToDouble (of_int 100) = of_int 100"
    by (rule roundToDouble_of_int) simp_all
  ultimately show "double_divide (Number n) 100 \<le> 100"
    by (simp add: exact double_divide_def)
qed

lemma sum_list_scaled:
  fixes f :: "int \<Rightarrow> int" and c :: rat
  shows "sum_list (map (\<lambda>b. of_int (f b) * c) bs) = of_int (sum_list (map f bs)) * c"
  by (induction bs) (simp_all add: algebra_simps)

lemma percentages_bounded:
  assumes pos: "\<forall>(a, b) \<in> set actual. 0 < b" and S: "0 < S"
    and le: "sum_list (map sh_balance (sortedHolders S actual)) \<le> S"
  shows "sum_list (map (\<lambda>h. (sh_balance h * 10000) div S) (sortedHolders S actual)) \<le> 10000"
    and "\<forall>h \<in> set (sortedHolders S actual). sh_percentage h \<le> 100"
    and "sum_list (map sh_percentage (sortedHolders S actual)) \<le> 100 + 100 / 9007199254740992"
proof -
  let ?bs = "map snd actual"
  let ?bp = "\<lambda>b. (b * 10000) div S"
  let ?c = "(1 / 100 + 1 / 100 / 9007199254740992 :: rat)"
  have posb: "\<forall>b \<in> set ?bs. 0 < b"
    using pos by auto
  have "sum_list (map ?bp ?bs) * S \<le> 10000 * sum_list ?bs"
    using S posb by (rule basis_points_bounded)
  also have "\<dots> \<le> 10000 * S"
    using le by (simp add: sortedHolders_sums)
  finally have total: "sum_list (map ?bp ?bs) \<le> 10000"
    using S by simp
  then show "sum_list (map (\<lambda>h. (sh_balance h * 10000) div S) (sortedHolders S actual)) \<le> 10000"
    by (simp only: sortedHolders_sums)
  have nonneg: "\<forall>n \<in> set (map ?bp ?bs). 0 \<le> n"
    using posb S by (auto simp add: pos_imp_zdiv_nonneg_iff)
  have range: "0 \<le> ?bp b \<and> ?bp b \<le> 10000" if "b \<in> set ?bs" for b
  proof -
    from that have "?bp b \<in> ?bp ` set ?bs"
      by (rule imageI)
    then have "?bp b \<in> set (map ?bp ?bs)"
      by (simp only: set_map)
    with nonneg total member_le_sum_list_int [OF nonneg this] show ?thesis
      by auto
  qed
  have each: "percentageOf S b = double_divide (Number (?bp b)) 100" if "b \<in> set ?bs" for b
  proof -
    from that posb have "0 \<le> b * 10000"
      by auto
    then show ?thesis
      using S by (simp add: percentageOf_def bigintDiv_nonneg)
  qed
  show "\<forall>h \<in> set (sortedHolders S actual). sh_percentage h \<le> 100"
  proof
    fix h
    assume "h \<in> set (sortedHolders S actual)"
    then obtain a b where ab: "(a, b) \<in> set actual"
      and hab: "h = \<lparr>sh_address = a, sh_balance = b, sh_percentage = percentageOf S b\<rparr>"
      by (auto simp add: sortedHolders_def)
    from ab have b: "b \<in> set ?bs"
      by force
    from range [OF b] have "double_divide (Number (?bp b)) 100 \<le> 100"
      by (intro percentage_of_basis_points) simp_all
    then show "sh_percentage h \<le> 100"
      by (simp add: hab each [OF b])
  qed
  have "sum_list (map (\<lambda>b. percentageOf S b) ?bs)
          \<le> sum_list (map (\<lambda>b. of_int (?bp b) * ?c) ?bs)"
  proof (rule sum_list_mono)
    fix b
    assume b: "b \<in> set ?bs"
    from range [OF b]
    have "double_divide (Number (?bp b)) 100
            \<le> of_int (?bp b) / 100 + of_int (?bp b) / 100 / 9007199254740992"
      by (intro percentage_of_basis_points) simp_all
    then show "percentageOf S b \<le> of_int (?bp b) * ?c"
      by (simp add: each [OF b] algebra_simps)
  qed
  also have "\<dots> = of_int (sum_list (map ?bp ?bs)) * ?c"
    by (rule sum_list_scaled)
  also have "\<dots> \<le> of_int 10000 * ?c"
  proof (rule mult_right_mono)
    show "(of_int (sum_list (map ?bp ?bs)) :: rat) \<le> of_int 10000"
      using total by (simp only: of_int_le_iff)
    show "0 \<le> ?c"
      by simp
  qed
  finally show "sum_list (map sh_percentage (sortedHolders S actual))
                  \<le> 100 + 100 / 9007199254740992"
    by (simp add: sortedHolders_sums)
qed


lemma fetchAllChunks_logsOnce:
  "fetchAllChunks (logsOnce logs) 1999 0
     \<lparr>fetchedLogs = [], failedChunks = 0, successfulChunks = 0, fetchRequests = 0\<rparr>
   = \<lparr>fetchedLogs = logs, failedChunks = 0, successfulChunks = 1, fetchRequests = 1\<rparr>"
  by (simp add: fetchAllChunks.simps fetchChunkWithRetry.simps logsOnce_def
        INITIAL_CHUNK_SIZE_def)

lemma toLowerCase_examples:
  "toLowerCase (CHR ''0'' # CHR ''x'' # addrA) = CHR ''0'' # CHR ''x'' # addrA"
  "toLowerCase (CHR ''0'' # CHR ''x'' # addrB) = CHR ''0'' # CHR ''x'' # addrB"
  "toLowerCase (CHR ''0'' # CHR ''x'' # addrC) = CHR ''0'' # CHR ''x'' # addrC"
  "toLowerCase (CHR ''0'' # CHR ''x'' # addrD) = CHR ''0'' # CHR ''x'' # addrD"
  by (simp_all add: toLowerCase_def lowerChar_def code_def addrA_def addrB_def addrC_def
        addrD_def)

lemma example_addresses_differ:
  "addrA \<noteq> addrB" "addrA \<noteq> addrC" "addrA \<noteq> addrD" "addrB \<noteq> addrC" "addrB \<noteq> addrD"
  "addrC \<noteq> addrD" "addrB \<noteq> addrA" "addrC \<noteq> addrA" "addrD \<noteq> addrA" "addrC \<noteq> addrB"
  "addrD \<noteq> addrB" "addrD \<noteq> addrC"
  by (simp_all add: addrA_def addrB_def addrC_def addrD_def)

lemma data_transferLog: "data (transferLog sender receiver v) = v"
  by (simp add: transferLog_def)

lemma applyTransferLog_transferLog:
  assumes "BigInt v = Some n"
    and "CHR ''0'' # CHR ''x'' # sender \<noteq> ZERO_ADDRESS"
    and "CHR ''0'' # CHR ''x'' # receiver \<noteq> ZERO_ADDRESS"
    and "toLowerCase (CHR ''0'' # CHR ''x'' # sender) = CHR ''0'' # CHR ''x'' # sender"
    and "toLowerCase (CHR ''0'' # CHR ''x'' # receiver) = CHR ''0'' # CHR ''x'' # receiver"
  shows "applyTransferLog bal (transferLog sender receiver v)
         = AList.update (''0x'' @ receiver)
             (getBalance (AList.update (''0x'' @ sender) (getBalance bal (''0x'' @ sender) - n) bal)
                (''0x'' @ receiver) + n)
             (AList.update (''0x'' @ sender) (getBalance bal (''0x'' @ sender) - n) bal)"
  using assms
  by (simp add: applyTransferLog_def topicAddress_transferLog data_transferLog Let_def)


text \<open>
  Rounding alone takes the sum past 100: a supply of 10000 minted to one address, which
  passes 2 on, is captured in full, and the two percentages, the doubles nearest to
  99.98 and 0.02, sum to more than 100.
\<close>

lemma percentages_exceed_100_by_rounding:
  "rankedHolders (logsOnce [transferLog addrZero addrA ''0x2710'', transferLog addrA addrB ''0x2''])
     balanceOfFails 1999 10000 1999 True
   = [\<lparr>sh_address = ''0x'' @ addrA, sh_balance = 9998,
       sh_percentage = 7035467042882847 / 70368744177664\<rparr>,
      \<lparr>sh_address = ''0x'' @ addrB, sh_balance = 2,
       sh_percentage = 5764607523034235 / 288230376151711744\<rparr>]"
  "100 < sum_list (map sh_percentage
     (rankedHolders (logsOnce [transferLog addrZero addrA ''0x2710'',
                               transferLog addrA addrB ''0x2''])
        balanceOfFails 1999 10000 1999 True))"
proof -
  have parse: "BigInt ''0x2710'' = Some 10000" "BigInt ''0x2'' = Some 2"
    by (simp_all add: BigInt_def trim_def isSpace_def code_def parseLiteral_def digitValue_def)
  have ledger:
    "buildLedger [transferLog addrZero addrA ''0x2710'', transferLog addrA addrB ''0x2'']
       = [(''0x'' @ addrA, 9998), (''0x'' @ addrB, 2)]"
    by (simp add: buildLedger_def applyTransferLog_transferLog applyTransferLog_mint
          topicAddress_transferLog parse data_transferLog
          example_addresses_not_zero toLowerCase_examples getBalance_def
          example_addresses_differ)
  show run: "rankedHolders (logsOnce [transferLog addrZero addrA ''0x2710'',
                                      transferLog addrA addrB ''0x2''])
          balanceOfFails 1999 10000 1999 True
        = [\<lparr>sh_address = ''0x'' @ addrA, sh_balance = 9998,
            sh_percentage = 7035467042882847 / 70368744177664\<rparr>,
           \<lparr>sh_address = ''0x'' @ addrB, sh_balance = 2,
            sh_percentage = 5764607523034235 / 288230376151711744\<rparr>]"
    by (simp add: rankedHolders_def fetchAllChunks_logsOnce ledger actualBalancesOf_def
          keepPositive_def sortedHolders_def percentageOf_def bigintDiv_def
          double_values example_addresses_differ)
  show "100 < sum_list (map sh_percentage
     (rankedHolders (logsOnce [transferLog addrZero addrA ''0x2710'',
                               transferLog addrA addrB ''0x2''])
        balanceOfFails 1999 10000 1999 True))"
    by (simp add: run)
qed

section \<open>Accurate mode: results\<close>

lemma AList_update_fresh:
  "k \<notin> fst ` set al \<Longrightarrow> AList.update k v al = al @ [(k, v)]"
  by (induction al) auto

lemma keepPositive_fresh:
  assumes "distinct (map fst rs)" "fst ` set rs \<inter> fst ` set acc = {}"
  shows "keepPositive acc rs = acc @ filter (\<lambda>(a, b). 0 < b) rs"
  using assms unfolding keepPositive_def
proof (induction rs arbitrary: acc)
  case Nil
  then show ?case by simp
next
  case (Cons r rs)
  obtain a b where r: "r = (a, b)"
    by (cases r)
  let ?acc = "if 0 < b then AList.update a b acc else acc"
  have fresh: "a \<notin> fst ` set acc"
    using Cons.prems(2) r by auto
  then have acc': "?acc = acc @ (if 0 < b then [(a, b)] else [])"
    by (simp add: AList_update_fresh)
  have "fst ` set rs \<inter> fst ` set ?acc = {}"
    using Cons.prems r by (auto simp add: acc' image_iff)
  with Cons.IH [of ?acc] Cons.prems(1)
  have "foldl (\<lambda>m (a, b). if 0 < b then AList.update a b m else m) ?acc rs
          = ?acc @ filter (\<lambda>(a, b). 0 < b) rs"
    by simp
  then show ?case
    using r acc' by simp
qed

lemma fst_queryBalance: "fst (queryBalance balanceOf a) = a"
  by (simp add: queryBalance_def split: sum.splits)

lemma map_fst_queryBalance: "map fst (map (queryBalance balanceOf) as) = as"
  by (induction as) (simp_all add: fst_queryBalance)

lemma verifyBalances_from:
  assumes "distinct addresses" "fst ` set acc \<subseteq> set (take i addresses)"
  shows "verifyBalances balanceOf addresses i acc
         = acc @ filter (\<lambda>(a, b). 0 < b) (map (queryBalance balanceOf) (drop i addresses))"
  using assms
proof (induction balanceOf addresses i acc rule: verifyBalances.induct)
  case (1 balanceOf addresses i acc)
  show ?case
  proof (cases "i < length addresses")
    case False
    then show ?thesis
      by (subst verifyBalances.simps) simp
  next
    case True
    let ?batch = "take BATCH_SIZE (drop i addresses)"
    let ?results = "map (queryBalance balanceOf) ?batch"
    let ?acc = "keepPositive acc ?results"
    have split: "drop i addresses = ?batch @ drop (i + BATCH_SIZE) addresses"
      by (metis append_take_drop_id drop_drop add.commute)
    have parts: "addresses = take i addresses @ ?batch @ drop (i + BATCH_SIZE) addresses"
      using split by (metis append_take_drop_id)
    have dist: "distinct (take i addresses @ ?batch @ drop (i + BATCH_SIZE) addresses)"
      using "1.prems"(1) parts by simp
    have "distinct ?batch"
      using dist by simp
    then have batch_distinct: "distinct (map fst ?results)"
      by (simp only: map_fst_queryBalance)
    have batch_fresh: "fst ` set ?results \<inter> fst ` set acc = {}"
    proof -
      have "fst ` set ?results = set ?batch"
        by (metis map_fst_queryBalance set_map)
      moreover have "set ?batch \<inter> set (take i addresses) = {}"
        using dist by auto
      ultimately show ?thesis
        using "1.prems"(2) by auto
    qed
    have acc': "?acc = acc @ filter (\<lambda>(a, b). 0 < b) ?results"
      using batch_distinct batch_fresh by (rule keepPositive_fresh)
    have "fst ` set ?acc \<subseteq> set (take i addresses) \<union> set ?batch"
    proof -
      have "fst ` set (filter (\<lambda>(a, b). 0 < b) ?results) \<subseteq> fst ` set ?results"
        by auto
      also have "\<dots> = set ?batch"
        by (metis map_fst_queryBalance set_map)
      finally show ?thesis
        using "1.prems"(2) by (auto simp add: acc')
    qed
    also have "\<dots> = set (take (i + BATCH_SIZE) addresses)"
      by (simp add: take_add)
    finally have keys: "fst ` set ?acc \<subseteq> set (take (i + BATCH_SIZE) addresses)" .
    have "verifyBalances balanceOf addresses (i + BATCH_SIZE) ?acc
           = ?acc @ filter (\<lambda>(a, b). 0 < b)
                      (map (queryBalance balanceOf) (drop (i + BATCH_SIZE) addresses))"
      using True "1.prems"(1) keys by (intro "1.IH") simp_all
    moreover have "verifyBalances balanceOf addresses i acc
           = verifyBalances balanceOf addresses (i + BATCH_SIZE) ?acc"
      using True by (subst verifyBalances.simps) (simp add: Let_def)
    moreover have "filter (\<lambda>(a, b). 0 < b) (map (queryBalance balanceOf) (drop i addresses))
           = filter (\<lambda>(a, b). 0 < b) ?results
             @ filter (\<lambda>(a, b). 0 < b)
                 (map (queryBalance balanceOf) (drop (i + BATCH_SIZE) addresses))"
      by (subst split) simp
    ultimately show ?thesis
      by (simp add: acc')
  qed
qed

lemma accurate_balances:
  assumes "distinct (map fst balances)"
  shows "actualBalancesOf False balanceOf balances
         = filter (\<lambda>(a, b). 0 < b) (map (queryBalance balanceOf) (map fst balances))"
  using verifyBalances_from [of "map fst balances" "[]" 0 balanceOf] assms
  by (simp add: actualBalancesOf_def)

lemma scanRecentHolders_holders:
  assumes "BigInt totalSupply = Some S"
  shows "\<exists>r. scanRecentHolders getLogs balanceOf latestBlock totalSupply scanDepth mode = Inr r
     \<and> map h_address (holders r)
         = map sh_address (rankedHolders getLogs balanceOf latestBlock S scanDepth mode)
     \<and> map percentage (holders r)
         = map sh_percentage (rankedHolders getLogs balanceOf latestBlock S scanDepth mode)
     \<and> map balance (holders r)
         = map (\<lambda>h. bigintToString (sh_balance h))
             (rankedHolders getLogs balanceOf latestBlock S scanDepth mode)"
  using assms by (simp add: scanRecentHolders_def Let_def comp_def)

text \<open>
  C10. In accurate mode the balances kept are exactly the positive results of the
  per-address queries, a rejected query counting as the balance 0: an address whose
  \<^verbatim>\<open>balanceOf\<close> rejects is not among the holders; the result is the one obtained from
  a contract that answers 0 wherever this one rejects; a contract that rejects on more
  addresses (and agrees elsewhere) gives a subset of the holders; and whatever
  \<^verbatim>\<open>balanceOf\<close> does, the scan returns a result when the total supply parses.
\<close>

theorem accurate_mode_swallows_balance_failures:
  "actualBalancesOf False balanceOf (buildLedger logs)
     = filter (\<lambda>(a, b). 0 < b)
         (map (\<lambda>a. (a, case balanceOf a of Inl e \<Rightarrow> 0 | Inr b \<Rightarrow> b))
              (map fst (buildLedger logs)))
   \<and> (\<forall>a e. balanceOf a = Inl e
         \<longrightarrow> a \<notin> fst ` set (actualBalancesOf False balanceOf (buildLedger logs)))
   \<and> actualBalancesOf False balanceOf (buildLedger logs)
       = actualBalancesOf False (\<lambda>a. case balanceOf a of Inl e \<Rightarrow> Inr 0 | Inr b \<Rightarrow> Inr b)
           (buildLedger logs)
   \<and> ((\<forall>a b. partial a = Inr b \<longrightarrow> balanceOf a = Inr b)
        \<longrightarrow> set (actualBalancesOf False partial (buildLedger logs))
              \<subseteq> set (actualBalancesOf False balanceOf (buildLedger logs)))
   \<and> (BigInt totalSupply \<noteq> None
        \<longrightarrow> (\<exists>r. scanRecentHolders getLogs balanceOf latestBlock totalSupply scanDepth False
                   = Inr r))"
proof -
  have q: "queryBalance f = (\<lambda>a. (a, case f a of Inl e \<Rightarrow> 0 | Inr b \<Rightarrow> b))" for f
    by (rule ext) (simp add: queryBalance_def split: sum.splits)
  have eq: "actualBalancesOf False f (buildLedger logs)
     = filter (\<lambda>(a, b). 0 < b)
         (map (\<lambda>a. (a, case f a of Inl e \<Rightarrow> 0 | Inr b \<Rightarrow> b)) (map fst (buildLedger logs)))" for f
    using accurate_balances [OF buildLedger_distinct, of f logs] by (simp add: q)
  have dropped: "\<forall>a e. balanceOf a = Inl e
         \<longrightarrow> a \<notin> fst ` set (actualBalancesOf False balanceOf (buildLedger logs))"
    by (auto simp add: eq)
  have zero: "actualBalancesOf False balanceOf (buildLedger logs)
       = actualBalancesOf False (\<lambda>a. case balanceOf a of Inl e \<Rightarrow> Inr 0 | Inr b \<Rightarrow> Inr b)
           (buildLedger logs)"
    unfolding eq
    by (intro arg_cong [where f = "filter (\<lambda>(a, b). 0 < b)"] map_cong)
       (simp_all split: sum.splits)
  have shrink: "(\<forall>a b. partial a = Inr b \<longrightarrow> balanceOf a = Inr b)
        \<longrightarrow> set (actualBalancesOf False partial (buildLedger logs))
              \<subseteq> set (actualBalancesOf False balanceOf (buildLedger logs))"
    by (auto simp add: eq split: sum.splits)
  have total: "BigInt totalSupply \<noteq> None
        \<longrightarrow> (\<exists>r. scanRecentHolders getLogs balanceOf latestBlock totalSupply scanDepth False
                   = Inr r)"
    using scanRecentHolders_holders by blast
  from eq [of balanceOf] dropped zero shrink total show ?thesis
    by blast
qed

theorem accurate_mode_swallows_balance_failures_witness:
  "actualBalancesOf False (balanceOfOnly (''0x'' @ addrB) 7)
     (buildLedger [transferLog addrA addrB ''0x64'']) = [(''0x'' @ addrB, 7)]
   \<and> ''0x'' @ addrA \<notin> fst ` set (actualBalancesOf False (balanceOfOnly (''0x'' @ addrB) 7)
                                     (buildLedger [transferLog addrA addrB ''0x64'']))
   \<and> set (actualBalancesOf False balanceOfFails (buildLedger [transferLog addrA addrB ''0x64'']))
       \<subseteq> set (actualBalancesOf False (balanceOfOnly (''0x'' @ addrB) 7)
                (buildLedger [transferLog addrA addrB ''0x64'']))
   \<and> (\<exists>r. scanRecentHolders (logsOnce [transferLog addrA addrB ''0x64''])
              (balanceOfOnly (''0x'' @ addrB) 7) 1999 ''100'' 1999 False = Inr r)"
proof -
  let ?logs = "[transferLog addrA addrB ''0x64'']"
  let ?balanceOf = "balanceOfOnly (''0x'' @ addrB) 7"
  note inst = accurate_mode_swallows_balance_failures
    [of ?balanceOf ?logs balanceOfFails "''100''" "logsOnce ?logs" 1999 1999]
  have ledger: "buildLedger ?logs = [(''0x'' @ addrA, - 100), (''0x'' @ addrB, 100)]"
    by (simp add: buildLedger_def applyTransferLog_transferLog BigInt_examples
          example_addresses_not_zero toLowerCase_examples getBalance_def
          example_addresses_differ)
  from inst have "actualBalancesOf False ?balanceOf (buildLedger ?logs)
     = filter (\<lambda>(a, b). 0 < b)
         (map (\<lambda>a. (a, case ?balanceOf a of Inl e \<Rightarrow> 0 | Inr b \<Rightarrow> b))
              (map fst (buildLedger ?logs)))"
    by blast
  then have kept: "actualBalancesOf False ?balanceOf (buildLedger ?logs) = [(''0x'' @ addrB, 7)]"
    by (simp add: ledger balanceOfOnly_def example_addresses_differ)
  have "?balanceOf (''0x'' @ addrA) = Inl ''missing response''"
    by (simp add: balanceOfOnly_def example_addresses_differ)
  with inst have dropped:
    "''0x'' @ addrA \<notin> fst ` set (actualBalancesOf False ?balanceOf (buildLedger ?logs))"
    by blast
  have "\<forall>a b. balanceOfFails a = Inr b \<longrightarrow> ?balanceOf a = Inr b"
    by (simp add: balanceOfFails_def)
  with inst have shrink:
    "set (actualBalancesOf False balanceOfFails (buildLedger ?logs))
       \<subseteq> set (actualBalancesOf False ?balanceOf (buildLedger ?logs))"
    by blast
  have "BigInt ''100'' \<noteq> None"
    by (simp add: BigInt_examples)
  with inst have total:
    "\<exists>r. scanRecentHolders (logsOnce ?logs) ?balanceOf 1999 ''100'' 1999 False = Inr r"
    by blast
  from kept dropped shrink total show ?thesis
    by blast
qed

section \<open>Trading tax detection: results\<close>

lemma getBestProvider_cases:
  obtains
    (no_config) "lookupConfig s chain = None"
      "getBestProvider chain s = (Inl (''No RPC configuration found for chain: '' @ chain), s)"
  | (no_provider) config where "lookupConfig s chain = Some config"
      "filter (\<lambda>p. url p \<noteq> []) (providers config) = []"
      "getBestProvider chain s = (Inl (''No RPC providers configured for chain: '' @ chain), s)"
  | (selected) config providerUrl s' where "lookupConfig s chain = Some config"
      "filter (\<lambda>p. url p \<noteq> []) (providers config) \<noteq> []"
      "getBestProvider chain s = (Inr providerUrl, s')"
proof (cases "lookupConfig s chain")
  case None
  then show ?thesis
    using no_config by (simp add: getBestProvider_def)
next
  case (Some config)
  show ?thesis
  proof (cases "filter (\<lambda>p. url p \<noteq> []) (providers config)")
    case Nil
    then show ?thesis
      using Some no_provider by (simp add: getBestProvider_def)
  next
    case (Cons first rest)
    then show ?thesis
      using Some selected [of config]
      by (cases "sort_key priority (filter isHealthy (filter (\<lambda>p. url p \<noteq> []) (providers config)))")
         (simp_all add: getBestProvider_def Let_def)
  qed
qed

lemma executeWithFailover_resolving:
  assumes op: "\<And>providerUrl s'. operation providerUrl s' = (Inr (f providerUrl), s')"
  shows "(\<exists>config providerUrl s1 s2.
            lookupConfig s chain = Some config
            \<and> filter (\<lambda>p. url p \<noteq> []) (providers config) \<noteq> []
            \<and> getBestProvider chain s = (Inr providerUrl, s1)
            \<and> executeWithFailover chain operation DEFAULT_MAX_RETRIES s
                = ((Inr (f providerUrl), []), s2))
       \<or> ((lookupConfig s chain = None
             \<or> (\<exists>config. lookupConfig s chain = Some config
                   \<and> filter (\<lambda>p. url p \<noteq> []) (providers config) = []))
            \<and> (\<exists>e. executeWithFailover chain operation DEFAULT_MAX_RETRIES s = ((Inl e, []), s)))"
proof (cases rule: getBestProvider_cases [where s = s and chain = chain])
  case no_config
  then show ?thesis
    by (simp add: executeWithFailover_def)
next
  case (no_provider config)
  then show ?thesis
    by (simp add: executeWithFailover_def DEFAULT_MAX_RETRIES_def executeLoop.simps [of chain _ 3 0])
next
  case (selected config providerUrl s')
  then show ?thesis
    by (simp add: executeWithFailover_def DEFAULT_MAX_RETRIES_def
          executeLoop.simps [of chain _ 3 0] op)
qed

lemma queryVariants_all_fail:
  assumes "\<forall>(variantName, isBuy) \<in> set variants. \<exists>e. call variantName = Inl e"
  shows "queryVariants call variants acc = acc"
  using assms
proof (induction variants arbitrary: acc)
  case Nil
  then show ?case by simp
next
  case (Cons variant variants)
  obtain variantName isBuy where v: "variant = (variantName, isBuy)"
    by (cases variant)
  obtain b s ok where acc: "acc = (b, s, ok)"
    by (cases acc)
  from Cons.prems v obtain e where "call variantName = Inl e"
    by auto
  then show ?case
    using Cons v acc by simp
qed

lemma queryVariants_read_succeeded:
  assumes "queryVariants call variants (b, s, False) = (b', s', True)"
  shows "\<exists>(variantName, isBuy) \<in> set variants. \<exists>v. call variantName = Inr v"
  using assms
proof (induction variants arbitrary: b s)
  case Nil
  then show ?case by simp
next
  case (Cons variant variants)
  obtain variantName isBuy where v: "variant = (variantName, isBuy)"
    by (cases variant)
  show ?case
  proof (cases "call variantName")
    case (Inl e)
    with Cons.prems v have "queryVariants call variants (b, s, False) = (b', s', True)"
      by simp
    from Cons.IH [OF this] show ?thesis
      by auto
  next
    case (Inr fee)
    then show ?thesis
      using v by auto
  qed
qed

lemma taxOperation_state:
  obtains
    (no_tax) "\<forall>(variantName, isBuy) \<in> set feeVariants. \<exists>e. call variantName = Inl e"
      "taxOperation call = \<lparr>buyTax = 0, sellTax = 0, hasTax = False, state = NoTax\<rparr>"
  | (read) buyFeeRaw sellFeeRaw where
      "queryVariants call feeVariants (None, None, False) = (buyFeeRaw, sellFeeRaw, True)"
      "\<exists>(variantName, isBuy) \<in> set feeVariants. \<exists>v. call variantName = Inr v"
      "taxOperation call =
         (if normalizeFee buyFeeRaw = 0 \<and> normalizeFee sellFeeRaw = 0
          then \<lparr>buyTax = 0, sellTax = 0, hasTax = False, state = TaxZero\<rparr>
          else \<lparr>buyTax = normalizeFee buyFeeRaw, sellTax = normalizeFee sellFeeRaw,
                hasTax = True, state = TaxKnown\<rparr>)"
proof -
  obtain buyFeeRaw sellFeeRaw readSucceeded where
    q: "queryVariants call feeVariants (None, None, False) = (buyFeeRaw, sellFeeRaw, readSucceeded)"
    by (cases "queryVariants call feeVariants (None, None, False)")
  show ?thesis
  proof (cases readSucceeded)
    case True
    with q queryVariants_read_succeeded [of call feeVariants None None buyFeeRaw sellFeeRaw]
    show ?thesis
      by (intro read [of buyFeeRaw sellFeeRaw]) (simp_all add: taxOperation_def Let_def)
  next
    case False
    have "\<forall>(variantName, isBuy) \<in> set feeVariants. \<exists>e. call variantName = Inl e"
    proof (rule ccontr)
      assume "\<not> ?thesis"
      then obtain variantName isBuy v where
        mem: "(variantName, isBuy) \<in> set feeVariants" and ok: "call variantName = Inr v"
        by (metis (mono_tags, lifting) case_prodI2 sum.exhaust)
      have "\<And>b s. snd (snd (queryVariants call variants (b, s, False)))"
        if "(variantName, isBuy) \<in> set variants" for variants
        using that
      proof (induction variants)
        case Nil
        then show ?case by simp
      next
        case (Cons variant variants)
        obtain n i where v: "variant = (n, i)"
          by (cases variant)
        show ?case
        proof (cases "call n")
          case (Inl e)
          then have "(variantName, isBuy) \<in> set variants"
            using Cons.prems v ok by auto
          with Cons.IH Inl v show ?thesis
            by simp
        next
          case (Inr fee)
          have flag: "snd (snd (queryVariants call vs (b1, s1, True)))" for vs b1 s1
          proof (induction vs arbitrary: b1 s1)
            case Nil
            then show ?case by simp
          next
            case (Cons w ws)
            then show ?case
              by (cases w; cases "call (fst w)") (auto simp add: Let_def split: if_splits)
          qed
          show ?thesis
            using Inr v flag by (auto simp add: Let_def split: if_splits)
        qed
      qed
      from this [OF mem, of None None] q False show False
        by simp
    qed
    with q False show ?thesis
      by (intro no_tax) (simp_all add: taxOperation_def Let_def)
  qed
qed

lemma detectTradingTax_result:
  obtains
    (resolved) config providerUrl s1 where "lookupConfig s chain = Some config"
      "filter (\<lambda>p. url p \<noteq> []) (providers config) \<noteq> []"
      "getBestProvider chain s = (Inr providerUrl, s1)"
      "fst (detectTradingTax chain contractCall s) = taxOperation (contractCall providerUrl)"
  | (failed) e where
      "lookupConfig s chain = None
       \<or> (\<exists>config. lookupConfig s chain = Some config
             \<and> filter (\<lambda>p. url p \<noteq> []) (providers config) = [])"
      "executeWithFailover chain
         (\<lambda>providerUrl s'. (Inr (taxOperation (contractCall providerUrl)), s'))
         DEFAULT_MAX_RETRIES s = ((Inl e, []), s)"
      "fst (detectTradingTax chain contractCall s)
         = \<lparr>buyTax = 0, sellTax = 0, hasTax = False, state = TaxUnknown\<rparr>"
proof -
  let ?op = "\<lambda>providerUrl s'. (Inr (taxOperation (contractCall providerUrl)), s')"
  from executeWithFailover_resolving [of ?op "\<lambda>u. taxOperation (contractCall u)" s chain]
  consider
    (a) config providerUrl s1 s2 where "lookupConfig s chain = Some config"
      "filter (\<lambda>p. url p \<noteq> []) (providers config) \<noteq> []"
      "getBestProvider chain s = (Inr providerUrl, s1)"
      "executeWithFailover chain ?op DEFAULT_MAX_RETRIES s
         = ((Inr (taxOperation (contractCall providerUrl)), []), s2)"
  | (b) e where
      "lookupConfig s chain = None
       \<or> (\<exists>config. lookupConfig s chain = Some config
             \<and> filter (\<lambda>p. url p \<noteq> []) (providers config) = [])"
      "executeWithFailover chain ?op DEFAULT_MAX_RETRIES s = ((Inl e, []), s)"
    by auto
  then show ?thesis
  proof cases
    case a
    then show ?thesis
      by (intro resolved [of config providerUrl s1]) (simp_all add: detectTradingTax_def)
  next
    case b
    then show ?thesis
      by (intro failed [of e]) (simp_all add: detectTradingTax_def)
  qed
qed

lemma taxOperation_not_unknown: "state (taxOperation call) \<noteq> TaxUnknown"
  by (cases rule: taxOperation_state [where call = call]) (simp_all split: if_splits)

text \<open>
  C8. When the chain is configured with a provider URL and every fee function read
  rejects, the result is \<open>NoTax\<close> (with zero taxes), whatever the state of the pool:
  every run gives it. \<open>TaxZero\<close> is returned only when a read through the selected
  provider resolved and both normalized fees are zero. \<open>TaxUnknown\<close> is returned only
  when \<^verbatim>\<open>executeWithFailover\<close> itself throws, which for this operation means that the
  chain has no configuration or no provider URL.
\<close>

theorem tax_detection_tristate:
  "((\<exists>config. lookupConfig s chain = Some config
        \<and> filter (\<lambda>p. url p \<noteq> []) (providers config) \<noteq> [])
     \<and> (\<forall>providerUrl. \<forall>(variantName, isBuy) \<in> set feeVariants.
           \<exists>e. contractCall providerUrl variantName = Inl e)
     \<longrightarrow> fst (detectTradingTax chain contractCall s)
           = \<lparr>buyTax = 0, sellTax = 0, hasTax = False, state = NoTax\<rparr>)
   \<and> (state (fst (detectTradingTax chain contractCall s)) = TaxZero
     \<longrightarrow> (\<exists>providerUrl s1 buyFeeRaw sellFeeRaw.
            getBestProvider chain s = (Inr providerUrl, s1)
            \<and> (\<exists>(variantName, isBuy) \<in> set feeVariants.
                  \<exists>v. contractCall providerUrl variantName = Inr v)
            \<and> queryVariants (contractCall providerUrl) feeVariants (None, None, False)
                = (buyFeeRaw, sellFeeRaw, True)
            \<and> normalizeFee buyFeeRaw = 0 \<and> normalizeFee sellFeeRaw = 0))
   \<and> (state (fst (detectTradingTax chain contractCall s)) = TaxUnknown
     \<longrightarrow> (\<exists>e. executeWithFailover chain
                 (\<lambda>providerUrl s'. (Inr (taxOperation (contractCall providerUrl)), s'))
                 DEFAULT_MAX_RETRIES s = ((Inl e, []), s))
         \<and> (lookupConfig s chain = None
              \<or> (\<exists>config. lookupConfig s chain = Some config
                    \<and> filter (\<lambda>p. url p \<noteq> []) (providers config) = [])))"
proof (cases rule: detectTradingTax_result [where s = s and chain = chain and contractCall = contractCall])
  case (resolved config providerUrl s1)
  let ?call = "contractCall providerUrl"
  show ?thesis
  proof (cases rule: taxOperation_state [where call = ?call])
    case no_tax
    then show ?thesis
      using resolved by simp
  next
    case (read buyFeeRaw sellFeeRaw)
    have not_all_fail:
      "\<not> (\<forall>providerUrl. \<forall>(variantName, isBuy) \<in> set feeVariants.
             \<exists>e. contractCall providerUrl variantName = Inl e)"
    proof
      assume all: "\<forall>providerUrl. \<forall>(variantName, isBuy) \<in> set feeVariants.
             \<exists>e. contractCall providerUrl variantName = Inl e"
      from read(2) obtain variantName isBuy v where
        mem: "(variantName, isBuy) \<in> set feeVariants"
        and ok: "contractCall providerUrl variantName = Inr v"
        by auto
      from all have "\<forall>(variantName, isBuy) \<in> set feeVariants.
             \<exists>e. contractCall providerUrl variantName = Inl e"
        by (rule spec)
      from bspec [OF this mem] have "\<exists>e. contractCall providerUrl variantName = Inl e"
        by simp
      with ok show False
        by simp
    qed
    have zero: "\<exists>providerUrl s1 buyFeeRaw sellFeeRaw.
            getBestProvider chain s = (Inr providerUrl, s1)
            \<and> (\<exists>(variantName, isBuy) \<in> set feeVariants.
                  \<exists>v. contractCall providerUrl variantName = Inr v)
            \<and> queryVariants (contractCall providerUrl) feeVariants (None, None, False)
                = (buyFeeRaw, sellFeeRaw, True)
            \<and> normalizeFee buyFeeRaw = 0 \<and> normalizeFee sellFeeRaw = 0"
      if "state (fst (detectTradingTax chain contractCall s)) = TaxZero"
    proof -
      from that resolved(4) read(3)
      have "normalizeFee buyFeeRaw = 0 \<and> normalizeFee sellFeeRaw = 0"
        by (simp split: if_splits)
      with resolved(3) read(1,2) show ?thesis
        by blast
    qed
    have "state (fst (detectTradingTax chain contractCall s)) \<noteq> TaxUnknown"
      using resolved(4) taxOperation_not_unknown by simp
    with not_all_fail zero show ?thesis
      by blast
  qed
next
  case (failed e)
  then show ?thesis
    by auto
qed

lemma lookupConfig_initialPool:
  "lookupConfig (initialPool noEnv) ''bsc''
     = Some \<lparr>chainId = ''bsc'', providers =
         [mkProvider [] ''Ankr BSC'' 1,
          mkProvider ''https://bsc-dataseed1.binance.org'' ''Binance'' 2,
          mkProvider ''https://bsc-dataseed2.binance.org'' ''Binance 2'' 3,
          mkProvider ''https://rpc.ankr.com/bsc'' ''Ankr Public'' 4]\<rparr>"
  "lookupConfig (initialPool noEnv) ''tron'' = None"
  by (simp_all add: lookupConfig_def initialPool_def INITIAL_RPC_CONFIGS_def toLowerCase_def
        lowerChar_def code_def envOr_def noEnv_def)

theorem tax_detection_tristate_witness:
  "fst (detectTradingTax ''bsc'' noFeeFunctions (initialPool noEnv))
     = \<lparr>buyTax = 0, sellTax = 0, hasTax = False, state = NoTax\<rparr>
   \<and> fst (detectTradingTax ''bsc'' (sellFeeOnly 0) (initialPool noEnv))
     = \<lparr>buyTax = 0, sellTax = 0, hasTax = False, state = TaxZero\<rparr>
   \<and> (\<exists>providerUrl v. sellFeeOnly 0 providerUrl ''sellFee'' = Inr v)
   \<and> fst (detectTradingTax ''tron'' noFeeFunctions (initialPool noEnv))
     = \<lparr>buyTax = 0, sellTax = 0, hasTax = False, state = TaxUnknown\<rparr>
   \<and> lookupConfig (initialPool noEnv) ''tron'' = None"
proof -
  let ?s = "initialPool noEnv"
  have configured: "\<exists>config. lookupConfig ?s ''bsc'' = Some config
        \<and> filter (\<lambda>p. url p \<noteq> []) (providers config) \<noteq> []"
    by (simp add: lookupConfig_initialPool mkProvider_def)
  have "\<forall>providerUrl. \<forall>(variantName, isBuy) \<in> set feeVariants.
           \<exists>e. noFeeFunctions providerUrl variantName = Inl e"
    by (simp add: noFeeFunctions_def)
  with configured tax_detection_tristate
         [where s = ?s and chain = "''bsc''" and contractCall = noFeeFunctions]
  have no_tax: "fst (detectTradingTax ''bsc'' noFeeFunctions ?s)
     = \<lparr>buyTax = 0, sellTax = 0, hasTax = False, state = NoTax\<rparr>"
    by blast
  have zero: "fst (detectTradingTax ''bsc'' (sellFeeOnly 0) ?s)
     = \<lparr>buyTax = 0, sellTax = 0, hasTax = False, state = TaxZero\<rparr>"
  proof (cases rule: detectTradingTax_result
           [where s = ?s and chain = "''bsc''" and contractCall = "sellFeeOnly 0"])
    case (resolved config providerUrl s1)
    have "taxOperation (sellFeeOnly 0 providerUrl)
            = \<lparr>buyTax = 0, sellTax = 0, hasTax = False, state = TaxZero\<rparr>"
      by (simp add: taxOperation_def feeVariants_def sellFeeOnly_def normalizeFee_def)
    with resolved show ?thesis
      by simp
  next
    case (failed e)
    with configured show ?thesis
      by auto
  qed
  then have "state (fst (detectTradingTax ''bsc'' (sellFeeOnly 0) ?s)) = TaxZero"
    by simp
  with tax_detection_tristate
         [where s = ?s and chain = "''bsc''" and contractCall = "sellFeeOnly 0"]
  have read: "\<exists>providerUrl v. sellFeeOnly 0 providerUrl ''sellFee'' = Inr v"
    by (simp add: sellFeeOnly_def)
  have unknown: "fst (detectTradingTax ''tron'' noFeeFunctions ?s)
     = \<lparr>buyTax = 0, sellTax = 0, hasTax = False, state = TaxUnknown\<rparr>"
  proof (cases rule: detectTradingTax_result
           [where s = ?s and chain = "''tron''" and contractCall = noFeeFunctions])
    case (resolved config providerUrl s1)
    then show ?thesis
      by (simp add: lookupConfig_initialPool)
  next
    case (failed e)
    then show ?thesis
      by simp
  qed
  then have "state (fst (detectTradingTax ''tron'' noFeeFunctions ?s)) = TaxUnknown"
    by simp
  with tax_detection_tristate
         [where s = ?s and chain = "''tron''" and contractCall = noFeeFunctions]
  have "lookupConfig ?s ''tron'' = None
        \<or> (\<exists>config. lookupConfig ?s ''tron'' = Some config
              \<and> filter (\<lambda>p. url p \<noteq> []) (providers config) = [])"
    by blast
  then have none: "lookupConfig ?s ''tron'' = None"
    by (simp add: lookupConfig_initialPool)
  from no_tax zero read unknown none show ?thesis
    by blast
qed

section \<open>Transaction type classification: results\<close>

text \<open>
  C9. The type of a transaction is decided by the fixed precedence
  Swap > Mint > Burn > Approval > Transfer > Other, first match winning: the classifier
  agrees with the first-match lookup in the precedence table on every list of decoded
  logs; a Swap event gives \<^verbatim>\<open>swap\<close> whatever else is present, without Swap a Mint
  event gives \<^verbatim>\<open>mint\<close>, and so on down to Transfer; no logs give
  \<^verbatim>\<open>other\<close>.
\<close>

theorem determineTransactionType_precedence:
  "determineTransactionType logs = classify_by_precedence logs
   \<and> determineTransactionType [] = ''other''
   \<and> (''Swap'' \<in> eventName ` set logs \<longrightarrow> determineTransactionType logs = ''swap'')
   \<and> (''Swap'' \<notin> eventName ` set logs \<and> ''Mint'' \<in> eventName ` set logs
        \<longrightarrow> determineTransactionType logs = ''mint'')
   \<and> (''Swap'' \<notin> eventName ` set logs \<and> ''Mint'' \<notin> eventName ` set logs
        \<and> ''Burn'' \<in> eventName ` set logs
        \<longrightarrow> determineTransactionType logs = ''burn'')
   \<and> (''Swap'' \<notin> eventName ` set logs \<and> ''Mint'' \<notin> eventName ` set logs
        \<and> ''Burn'' \<notin> eventName ` set logs \<and> ''Approval'' \<in> eventName ` set logs
        \<longrightarrow> determineTransactionType logs = ''approve'')
   \<and> (''Swap'' \<notin> eventName ` set logs \<and> ''Mint'' \<notin> eventName ` set logs
        \<and> ''Burn'' \<notin> eventName ` set logs \<and> ''Approval'' \<notin> eventName ` set logs
        \<and> ''Transfer'' \<in> eventName ` set logs
        \<longrightarrow> determineTransactionType logs = ''transfer'')
   \<and> (''Swap'' \<notin> eventName ` set logs \<and> ''Mint'' \<notin> eventName ` set logs
        \<and> ''Burn'' \<notin> eventName ` set logs \<and> ''Approval'' \<notin> eventName ` set logs
        \<and> ''Transfer'' \<notin> eventName ` set logs
        \<longrightarrow> determineTransactionType logs = ''other'')"
proof -
  have refine: "determineTransactionType logs = classify_by_precedence logs"
  proof (cases "logs = []")
    case True
    then show ?thesis
      by (simp add: determineTransactionType_def classify_by_precedence_def type_precedence_def)
  next
    case False
    then show ?thesis
      by (simp add: determineTransactionType_def classify_by_precedence_def
          type_precedence_def Let_def)
  qed
  have empty: "determineTransactionType [] = ''other''"
    by (simp add: determineTransactionType_def)
  have byname: "determineTransactionType logs =
      (if ''Swap'' \<in> eventName ` set logs then ''swap''
       else if ''Mint'' \<in> eventName ` set logs then ''mint''
       else if ''Burn'' \<in> eventName ` set logs then ''burn''
       else if ''Approval'' \<in> eventName ` set logs then ''approve''
       else if ''Transfer'' \<in> eventName ` set logs then ''transfer''
       else ''other'')"
    by (cases "logs = []") (simp_all add: determineTransactionType_def Let_def)
  from byname have rest:
    "(''Swap'' \<in> eventName ` set logs \<longrightarrow> determineTransactionType logs = ''swap'')
   \<and> (''Swap'' \<notin> eventName ` set logs \<and> ''Mint'' \<in> eventName ` set logs
        \<longrightarrow> determineTransactionType logs = ''mint'')
   \<and> (''Swap'' \<notin> eventName ` set logs \<and> ''Mint'' \<notin> eventName ` set logs
        \<and> ''Burn'' \<in> eventName ` set logs
        \<longrightarrow> determineTransactionType logs = ''burn'')
   \<and> (''Swap'' \<notin> eventName ` set logs \<and> ''Mint'' \<notin> eventName ` set logs
        \<and> ''Burn'' \<notin> eventName ` set logs \<and> ''Approval'' \<in> eventName ` set logs
        \<longrightarrow> determineTransactionType logs = ''approve'')
   \<and> (''Swap'' \<notin> eventName ` set logs \<and> ''Mint'' \<notin> eventName ` set logs
        \<and> ''Burn'' \<notin> eventName ` set logs \<and> ''Approval'' \<notin> eventName ` set logs
        \<and> ''Transfer'' \<in> eventName ` set logs
        \<longrightarrow> determineTransactionType logs = ''transfer'')
   \<and> (''Swap'' \<notin> eventName ` set logs \<and> ''Mint'' \<notin> eventName ` set logs
        \<and> ''Burn'' \<notin> eventName ` set logs \<and> ''Approval'' \<notin> eventName ` set logs
        \<and> ''Transfer'' \<notin> eventName ` set logs
        \<longrightarrow> determineTransactionType logs = ''other'')"
    by presburger
  from refine empty rest show ?thesis
    by blast
qed

theorem determineTransactionType_precedence_witness:
  "determineTransactionType
     [\<lparr>eventName = ''Transfer'', args = []\<rparr>, \<lparr>eventName = ''Swap'', args = []\<rparr>,
      \<lparr>eventName = ''Mint'', args = []\<rparr>] = ''swap''
   \<and> determineTransactionType
     [\<lparr>eventName = ''Transfer'', args = []\<rparr>, \<lparr>eventName = ''Approval'', args = []\<rparr>,
      \<lparr>eventName = ''Burn'', args = []\<rparr>] = ''burn''"
proof -
  let ?swapTx = "[\<lparr>eventName = ''Transfer'', args = []\<rparr>, \<lparr>eventName = ''Swap'', args = []\<rparr>,
                  \<lparr>eventName = ''Mint'', args = []\<rparr>]"
  let ?burnTx = "[\<lparr>eventName = ''Transfer'', args = []\<rparr>,
                  \<lparr>eventName = ''Approval'', args = []\<rparr>, \<lparr>eventName = ''Burn'', args = []\<rparr>]"
  have "''Swap'' \<in> eventName ` set ?swapTx"
    by simp
  with determineTransactionType_precedence [of ?swapTx]
  have swap: "determineTransactionType ?swapTx = ''swap''"
    by blast
  have "''Swap'' \<notin> eventName ` set ?burnTx \<and> ''Mint'' \<notin> eventName ` set ?burnTx
        \<and> ''Burn'' \<in> eventName ` set ?burnTx"
    by simp
  with determineTransactionType_precedence [of ?burnTx]
  have burn: "determineTransactionType ?burnTx = ''burn''"
    by blast
  from swap burn show ?thesis
    by blast
qed


end
